theory Spec2Isabelle
  imports Main "HOL-Library.Sublist" "HOL-Library.Word"
begin

section \<open>Python values used by \<^verbatim>\<open>manimlib/shader_wrapper.py\<close>\<close>

text \<open>
  The exceptions the module can raise. \<open>OSError\<close> is what \<^verbatim>\<open>open\<close> and
  \<^verbatim>\<open>find_file\<close> raise (\<^verbatim>\<open>IOError\<close> is the same class in Python 3);
  \<open>RecursionError\<close> is raised by the interpreter when the call depth reaches its limit.
\<close>

datatype py_error = TypeError | ValueError | KeyError | OSError | RecursionError

subsection \<open>Strings\<close>

definition newline :: char where
  "newline = CHR 0x0A"

definition digit_char :: "nat \<Rightarrow> char" where
  "digit_char d = ''0123456789'' ! d"

text \<open>\<^verbatim>\<open>str(n)\<close> for a non-negative Python integer: its decimal digits.\<close>

fun str_nat :: "nat \<Rightarrow> string" where
  "str_nat n = (if n < 10 then [digit_char n] else str_nat (n div 10) @ [digit_char (n mod 10)])"

declare str_nat.simps [simp del]

text \<open>\<^verbatim>\<open>str(i)\<close> for a Python integer.\<close>

definition str_int :: "int \<Rightarrow> string" where
  "str_int i = (if i < 0 then CHR ''-'' # str_nat (nat (- i)) else str_nat (nat i))"

text \<open>\<^verbatim>\<open>str(b)\<close> for a Python bool.\<close>

definition str_bool :: "bool \<Rightarrow> string" where
  "str_bool b = (if b then ''True'' else ''False'')"

text \<open>\<^verbatim>\<open>sep.join(xs)\<close>.\<close>

fun join :: "string \<Rightarrow> string list \<Rightarrow> string" where
  "join sep [] = []"
| "join sep [x] = x"
| "join sep (x # y # ys) = x @ sep @ join sep (y # ys)"

text \<open>
  \<^verbatim>\<open>s.replace(old, new)\<close>: every non-overlapping occurrence of \<open>old\<close> in \<open>s\<close>,
  found from left to right, is replaced by \<open>new\<close>. With an empty \<open>old\<close> Python puts
  \<open>new\<close> before every character and at the end.
\<close>

function replace_ne :: "string \<Rightarrow> string \<Rightarrow> string \<Rightarrow> string" where
  "replace_ne [] old new = []"
| "replace_ne (c # cs) old new =
     (if old = [] then c # cs
      else if prefix old (c # cs) then new @ replace_ne (drop (length old) (c # cs)) old new
      else c # replace_ne cs old new)"
  by pat_completeness auto
termination
  by (relation "measure (\<lambda>(s, old, new). length s)") (auto simp: neq_Nil_conv)

definition str_replace :: "string \<Rightarrow> string \<Rightarrow> string \<Rightarrow> string" where
  "str_replace s old new =
     (if old = [] then new @ concat (map (\<lambda>c. c # new) s) else replace_ne s old new)"

text \<open>The lines of a text: the pieces between its newline characters.\<close>

fun split_nl :: "string \<Rightarrow> string list" where
  "split_nl [] = [[]]"
| "split_nl (c # cs) =
     (if c = newline then [] # split_nl cs
      else (case split_nl cs of [] \<Rightarrow> [[c]] | l # ls \<Rightarrow> (c # l) # ls))"

text \<open>
  \<^verbatim>\<open>os.path.join(a, b)\<close> on POSIX: an absolute \<open>b\<close> discards \<open>a\<close>; otherwise the
  two are joined by one slash, unless \<open>a\<close> is empty or already ends in one.
\<close>

definition path_join :: "string \<Rightarrow> string \<Rightarrow> string" where
  "path_join a b =
     (if prefix ''/'' b then b
      else if a = [] \<or> suffix ''/'' a then a @ b
      else a @ ''/'' @ b)"

section \<open>\<^verbatim>\<open>get_colormap_code\<close>\<close>

text \<open>
  \<^verbatim>\<open>"vec3({}, {}, {})".format(*rgb)\<close> prints each component with \<^verbatim>\<open>str\<close>; the
  printer of the component type is the parameter \<open>str_c\<close> (\<open>str_int\<close> for integer
  components).
\<close>

definition format_vec3 :: "('c \<Rightarrow> string) \<Rightarrow> 'c \<times> 'c \<times> 'c \<Rightarrow> string" where
  "format_vec3 str_c rgb =
     (case rgb of (r, g, b) \<Rightarrow>
        ''vec3('' @ str_c r @ '', '' @ str_c g @ '', '' @ str_c b @ '')'')"

definition get_colormap_code :: "('c \<Rightarrow> string) \<Rightarrow> ('c \<times> 'c \<times> 'c) list \<Rightarrow> string" where
  "get_colormap_code str_c rgb_list =
     (let data = join '','' (map (format_vec3 str_c) rgb_list)
      in ''vec3['' @ str_nat (length rgb_list) @ '']('' @ data @ '')'')"

section \<open>\<^verbatim>\<open>get_shader_code_from_file\<close>\<close>

text \<open>
  The file system as the function sees it: what stands behind a file name once the search
  roots (\<^verbatim>\<open>[get_shader_dir(), "/"]\<close>) have been tried.
\<close>

datatype file_state = Missing | Unreadable | Readable string

text \<open>
  Modelled from the spec: \<^verbatim>\<open>find_file\<close> of \<^verbatim>\<open>manimlib.utils.file_ops\<close> is not
  part of the sources at hand. It searches the configured root directories for the name and
  returns the path found; a name that none of them holds raises \<^verbatim>\<open>IOError\<close>. The
  search roots are folded into the file system function, so the path found is the name.
\<close>

definition find_file :: "(string \<Rightarrow> file_state) \<Rightarrow> string \<Rightarrow> py_error + string" where
  "find_file fs filename = (case fs filename of Missing \<Rightarrow> Inl OSError | _ \<Rightarrow> Inr filename)"

text \<open>\<^verbatim>\<open>with open(filepath, "r") as f: result = f.read()\<close>\<close>

definition open_read :: "(string \<Rightarrow> file_state) \<Rightarrow> string \<Rightarrow> py_error + string" where
  "open_read fs filepath = (case fs filepath of Readable contents \<Rightarrow> Inr contents | _ \<Rightarrow> Inl OSError)"

text \<open>
  A line that the pattern \<^verbatim>\<open>^#INSERT .*\.glsl$\<close> matches as a whole: it starts with
  \<^verbatim>\<open>#INSERT \<close>, ends with \<^verbatim>\<open>.glsl\<close>, and the two do not overlap.
\<close>

definition is_insert_line :: "string \<Rightarrow> bool" where
  "is_insert_line l \<longleftrightarrow> prefix ''#INSERT '' l \<and> suffix ''.glsl'' l \<and> 13 \<le> length l"

text \<open>
  \<^verbatim>\<open>re.findall(r"^#INSERT .*\.glsl$", result, flags=re.MULTILINE)\<close>: with
  \<^verbatim>\<open>re.MULTILINE\<close> the anchors match at every line start and line end, and \<^verbatim>\<open>.\<close>
  matches everything but a newline, so the matches are the matching lines, in order.
\<close>

definition insertions :: "string \<Rightarrow> string list" where
  "insertions result = filter is_insert_line (split_nl result)"

text \<open>\<^verbatim>\<open>os.path.join("inserts", line.replace("#INSERT ", ""))\<close>\<close>

definition insert_target :: "string \<Rightarrow> string" where
  "insert_target line = path_join ''inserts'' (str_replace line ''#INSERT '' [])"

text \<open>
  The function calls itself once per directive line; \<open>depth\<close> is the number of nested
  calls the interpreter still allows, and a call beyond it raises \<^verbatim>\<open>RecursionError\<close>.
  \<^verbatim>\<open>None\<close> is \<open>Inr None\<close>. The \<^verbatim>\<open>lru_cache\<close> decorator stores results only and is
  left out: the file system is fixed during a call.

  \<open>insert_loop\<close> is the \<^verbatim>\<open>for line in insertions\<close> loop; \<^verbatim>\<open>result.replace(line, None)\<close>
  raises \<^verbatim>\<open>TypeError\<close>.
\<close>

fun get_shader_code_from_file :: "(string \<Rightarrow> file_state) \<Rightarrow> nat \<Rightarrow> string \<Rightarrow> py_error + string option"
  and insert_loop :: "(string \<Rightarrow> file_state) \<Rightarrow> nat \<Rightarrow> string list \<Rightarrow> string \<Rightarrow> py_error + string option"
where
  "get_shader_code_from_file fs 0 filename = Inl RecursionError"
| "get_shader_code_from_file fs (Suc depth) filename =
     (if filename = [] then Inr None
      else (case find_file fs filename of
              Inl e \<Rightarrow> Inr None
            | Inr filepath \<Rightarrow>
                (case open_read fs filepath of
                   Inl e \<Rightarrow> Inl e
                 | Inr result \<Rightarrow> insert_loop fs depth (insertions result) result)))"
| "insert_loop fs depth [] result = Inr (Some result)"
| "insert_loop fs depth (line # lines) result =
     (case get_shader_code_from_file fs depth (insert_target line) of
        Inl e \<Rightarrow> Inl e
      | Inr None \<Rightarrow> Inl TypeError
      | Inr (Some inserted_code) \<Rightarrow>
          insert_loop fs depth lines (str_replace result line inserted_code))"

section \<open>The class \<^verbatim>\<open>ShaderWrapper\<close>\<close>

subsection \<open>Objects and the store\<close>

text \<open>
  Arrays and dictionaries are Python objects that several wrappers can share, so a wrapper
  holds their addresses and the store holds their contents. A wrapper is an object too:
  \<^verbatim>\<open>read_in\<close> rebinds attributes of \<open>self\<close>, and the wrappers it reads are given by
  reference.

  The elements of \<^verbatim>\<open>vert_data\<close> are values of a type \<open>'v\<close> (one structured record per
  vertex) and a uniform is a number or an array over a numeric type \<open>'n\<close>. The
  elementwise \<^verbatim>\<open>==\<close> of numpy on these two types is a parameter of \<^verbatim>\<open>__eq__\<close>: it
  need not be reflexive, since the floating-point value NaN differs from itself.

  Index entries are integers of the fixed width of the index dtype, \<open>'w word\<close>
  (\<^verbatim>\<open>int64\<close> is \<open>64 word\<close>, read as a signed number by \<open>sint\<close>): numpy adds and stores
  them modulo \<open>2 ^ w\<close> without a check. All index arrays of a store have this dtype.

  A uniform value is a Python number (\<open>Scalar\<close>), the zero-dimensional array that
  \<^verbatim>\<open>np.array\<close> makes of a number (\<open>Array0\<close>), or a one-dimensional array (\<open>Vector\<close>).
\<close>

type_synonym addr = nat

datatype 'n uval = Scalar 'n | Array0 'n | Vector "'n list"

text \<open>\<^verbatim>\<open>np.array(value)\<close>: a new array with the contents of the value.\<close>

fun np_array :: "'n uval \<Rightarrow> 'n uval" where
  "np_array (Scalar x) = Array0 x"
| "np_array (Array0 x) = Array0 x"
| "np_array (Vector xs) = Vector xs"

record code_map =
  vertex_shader :: "string option"
  geometry_shader :: "string option"
  fragment_shader :: "string option"

record shader_wrapper =
  vert_data :: addr
  vert_indices :: "addr option"
  vert_attributes :: "string list"
  shader_folder :: string
  uniforms :: addr
  texture_paths :: addr
  depth_test :: bool
  use_clip_plane :: bool
  render_primitive :: string
  program_code :: addr
  program_id :: int
  id_field :: string

record ('v, 'n, 'i) store =
  objs :: "addr \<Rightarrow> shader_wrapper"
  arrays :: "addr \<Rightarrow> 'v list"
  index_arrays :: "addr \<Rightarrow> 'i list"
  uniform_dicts :: "addr \<Rightarrow> (string \<times> 'n uval) list"
  texture_dicts :: "addr \<Rightarrow> (string \<times> string) list"
  code_dicts :: "addr \<Rightarrow> code_map"
  next_addr :: addr

text \<open>Creating an object: it gets the next free address.\<close>

definition alloc_obj :: "('v, 'n, 'w::len word) store \<Rightarrow> shader_wrapper \<Rightarrow> ('v, 'n, 'w::len word) store \<times> addr" where
  "alloc_obj s w = (s\<lparr>objs := (objs s)(next_addr s := w), next_addr := Suc (next_addr s)\<rparr>, next_addr s)"

definition alloc_array :: "('v, 'n, 'w::len word) store \<Rightarrow> 'v list \<Rightarrow> ('v, 'n, 'w::len word) store \<times> addr" where
  "alloc_array s xs =
     (s\<lparr>arrays := (arrays s)(next_addr s := xs), next_addr := Suc (next_addr s)\<rparr>, next_addr s)"

definition alloc_index_array :: "('v, 'n, 'w::len word) store \<Rightarrow> 'w word list \<Rightarrow> ('v, 'n, 'w::len word) store \<times> addr" where
  "alloc_index_array s xs =
     (s\<lparr>index_arrays := (index_arrays s)(next_addr s := xs), next_addr := Suc (next_addr s)\<rparr>,
      next_addr s)"

definition alloc_uniform_dict ::
  "('v, 'n, 'w::len word) store \<Rightarrow> (string \<times> 'n uval) list \<Rightarrow> ('v, 'n, 'w::len word) store \<times> addr" where
  "alloc_uniform_dict s d =
     (s\<lparr>uniform_dicts := (uniform_dicts s)(next_addr s := d), next_addr := Suc (next_addr s)\<rparr>,
      next_addr s)"

definition alloc_texture_dict ::
  "('v, 'n, 'w::len word) store \<Rightarrow> (string \<times> string) list \<Rightarrow> ('v, 'n, 'w::len word) store \<times> addr" where
  "alloc_texture_dict s d =
     (s\<lparr>texture_dicts := (texture_dicts s)(next_addr s := d), next_addr := Suc (next_addr s)\<rparr>,
      next_addr s)"

text \<open>Rebinding attributes of the object at an address.\<close>

definition set_obj :: "('v, 'n, 'w::len word) store \<Rightarrow> addr \<Rightarrow> shader_wrapper \<Rightarrow> ('v, 'n, 'w::len word) store" where
  "set_obj s a w = s\<lparr>objs := (objs s)(a := w)\<rparr>"

text \<open>The contents of the two buffers of the wrapper at an address.\<close>

definition vertices :: "('v, 'n, 'w::len word) store \<Rightarrow> addr \<Rightarrow> 'v list" where
  "vertices s w = arrays s (vert_data (objs s w))"

definition indices :: "('v, 'n, 'w::len word) store \<Rightarrow> addr \<Rightarrow> 'w word list option" where
  "indices s w = map_option (index_arrays s) (vert_indices (objs s w))"

subsection \<open>numpy operations on one-dimensional arrays\<close>

text \<open>
  \<^verbatim>\<open>np.all(a == b)\<close>, with the elementwise comparison \<open>eq\<close>: arrays of the same length
  are compared element by element, an array of length one is broadcast against the other,
  and any other pair of lengths cannot be broadcast (\<^verbatim>\<open>ValueError\<close>).
\<close>

definition np_all_eq :: "('a \<Rightarrow> 'a \<Rightarrow> bool) \<Rightarrow> 'a list \<Rightarrow> 'a list \<Rightarrow> py_error + bool" where
  "np_all_eq eq xs ys =
     (if length xs = length ys then Inr (list_all2 eq xs ys)
      else if length xs = 1 then Inr (list_all (\<lambda>y. eq (hd xs) y) ys)
      else if length ys = 1 then Inr (list_all (\<lambda>x. eq x (hd ys)) xs)
      else Inl ValueError)"

text \<open>
  The same for \<^verbatim>\<open>vert_indices\<close>, which may be \<^verbatim>\<open>None\<close>: \<^verbatim>\<open>None == None\<close> is true,
  and an array compared with \<^verbatim>\<open>None\<close> is false at every element, which \<^verbatim>\<open>np.all\<close>
  turns into true for the empty array only. Integers are equal to themselves.
\<close>

fun np_all_eq_opt :: "'w::len word list option \<Rightarrow> 'w word list option \<Rightarrow> py_error + bool" where
  "np_all_eq_opt None None = Inr True"
| "np_all_eq_opt (Some xs) None = Inr (xs = [])"
| "np_all_eq_opt None (Some ys) = Inr (ys = [])"
| "np_all_eq_opt (Some xs) (Some ys) = np_all_eq (=) xs ys"

text \<open>\<^verbatim>\<open>np.all(u == v)\<close> for two uniform values.\<close>

fun uval_all_eq :: "('n \<Rightarrow> 'n \<Rightarrow> bool) \<Rightarrow> 'n uval \<Rightarrow> 'n uval \<Rightarrow> py_error + bool" where
  "uval_all_eq eq (Scalar x) (Scalar y) = Inr (eq x y)"
| "uval_all_eq eq (Scalar x) (Array0 y) = Inr (eq x y)"
| "uval_all_eq eq (Array0 x) (Scalar y) = Inr (eq x y)"
| "uval_all_eq eq (Array0 x) (Array0 y) = Inr (eq x y)"
| "uval_all_eq eq (Scalar x) (Vector ys) = Inr (list_all (\<lambda>y. eq x y) ys)"
| "uval_all_eq eq (Array0 x) (Vector ys) = Inr (list_all (\<lambda>y. eq x y) ys)"
| "uval_all_eq eq (Vector xs) (Scalar y) = Inr (list_all (\<lambda>x. eq x y) xs)"
| "uval_all_eq eq (Vector xs) (Array0 y) = Inr (list_all (\<lambda>x. eq x y) xs)"
| "uval_all_eq eq (Vector xs) (Vector ys) = np_all_eq eq xs ys"

text \<open>
  \<^verbatim>\<open>a[i:j] = ys\<close> with \<open>0 \<le> i \<le> j\<close>: the slice is clipped to the array, \<open>ys\<close> must
  have the length of the slice or length one (it is then broadcast), and the array keeps
  its length.
\<close>

definition slice_assign :: "'a list \<Rightarrow> nat \<Rightarrow> nat \<Rightarrow> 'a list \<Rightarrow> py_error + 'a list" where
  "slice_assign xs i j ys =
     (let i' = min i (length xs); j' = max i' (min j (length xs)); n = j' - i'
      in if length ys = n then Inr (take i' xs @ ys @ drop j' xs)
         else if length ys = 1 then Inr (take i' xs @ replicate n (hd ys) @ drop j' xs)
         else Inl ValueError)"

text \<open>
  \<^verbatim>\<open>np.resize(a, n)\<close>: a new array of length \<open>n\<close> filled with repeated copies of \<open>a\<close>,
  or with zeros when \<open>a\<close> is empty.
\<close>

definition np_resize :: "'a::zero list \<Rightarrow> nat \<Rightarrow> 'a list" where
  "np_resize xs n = (if xs = [] then replicate n 0 else take n (concat (replicate n xs)))"

text \<open>
  Modelled from the spec: \<^verbatim>\<open>resize_array\<close> of \<^verbatim>\<open>manimlib.utils.iterables\<close> is not part
  of the sources at hand. It grows (or shrinks) a buffer to the requested length. The model
  returns the array itself when it has that length already and a new array made by
  \<^verbatim>\<open>np.resize\<close> otherwise, so that a caller's array can stay shared.
\<close>

definition resize_array :: "('v::zero, 'n, 'w::len word) store \<Rightarrow> addr \<Rightarrow> nat \<Rightarrow> ('v, 'n, 'w::len word) store \<times> addr" where
  "resize_array s a n =
     (if length (arrays s a) = n then (s, a) else alloc_array s (np_resize (arrays s a) n))"

definition resize_index_array :: "('v, 'n, 'w::len word) store \<Rightarrow> addr \<Rightarrow> nat \<Rightarrow> ('v, 'n, 'w::len word) store \<times> addr" where
  "resize_index_array s a n =
     (if length (index_arrays s a) = n then (s, a)
      else alloc_index_array s (np_resize (index_arrays s a) n))"

subsection \<open>\<^verbatim>\<open>__eq__\<close>\<close>

text \<open>
  \<^verbatim>\<open>all(cmp(mine[key], other[key]) for key in mine)\<close>: the keys of the first dictionary
  are visited in order, a key the second dictionary lacks raises \<^verbatim>\<open>KeyError\<close>, and
  the first false comparison ends the iteration.
\<close>

fun all_keys_eq ::
  "('a \<Rightarrow> 'a \<Rightarrow> py_error + bool) \<Rightarrow> string list \<Rightarrow> (string \<times> 'a) list \<Rightarrow> (string \<times> 'a) list
    \<Rightarrow> py_error + bool" where
  "all_keys_eq cmp [] mine other = Inr True"
| "all_keys_eq cmp (key # keys) mine other =
     (case map_of mine key of
        None \<Rightarrow> Inl KeyError
      | Some v \<Rightarrow>
          (case map_of other key of
             None \<Rightarrow> Inl KeyError
           | Some v' \<Rightarrow>
               (case cmp v v' of
                  Inl e \<Rightarrow> Inl e
                | Inr b \<Rightarrow> if b then all_keys_eq cmp keys mine other else Inr False)))"

definition dict_all_eq ::
  "('a \<Rightarrow> 'a \<Rightarrow> py_error + bool) \<Rightarrow> (string \<times> 'a) list \<Rightarrow> (string \<times> 'a) list \<Rightarrow> py_error + bool" where
  "dict_all_eq cmp mine other = all_keys_eq cmp (map fst mine) mine other"

text \<open>
  The seven entries of the tuple are computed in order, each of them may raise, and
  \<^verbatim>\<open>all\<close> is applied to the finished tuple. \<open>veq\<close> and \<open>neq\<close> are the elementwise
  \<^verbatim>\<open>==\<close> of numpy on vertex records and on the numbers of uniforms.
\<close>

definition sw_eq ::
  "('v \<Rightarrow> 'v \<Rightarrow> bool) \<Rightarrow> ('n \<Rightarrow> 'n \<Rightarrow> bool) \<Rightarrow> ('v, 'n, 'w::len word) store \<Rightarrow> addr \<Rightarrow> addr
    \<Rightarrow> py_error + bool" where
  "sw_eq veq neq s self shader_wrapper =
     (let me = objs s self; other = objs s shader_wrapper
      in case np_all_eq veq (arrays s (vert_data me)) (arrays s (vert_data other)) of
           Inl e \<Rightarrow> Inl e
         | Inr c1 \<Rightarrow>
             (case np_all_eq_opt (indices s self) (indices s shader_wrapper) of
                Inl e \<Rightarrow> Inl e
              | Inr c2 \<Rightarrow>
                  (case dict_all_eq (uval_all_eq neq)
                          (uniform_dicts s (uniforms me)) (uniform_dicts s (uniforms other)) of
                     Inl e \<Rightarrow> Inl e
                   | Inr c4 \<Rightarrow>
                       (case dict_all_eq (\<lambda>p q. Inr (p = q))
                               (texture_dicts s (texture_paths me))
                               (texture_dicts s (texture_paths other)) of
                          Inl e \<Rightarrow> Inl e
                        | Inr c5 \<Rightarrow>
                            Inr (list_all (\<lambda>c. c)
                                   [c1, c2, shader_folder me = shader_folder other, c4, c5,
                                    depth_test me = depth_test other,
                                    render_primitive me = render_primitive other])))))"

subsection \<open>\<^verbatim>\<open>copy\<close>\<close>

text \<open>
  \<^verbatim>\<open>copy.copy(self)\<close> makes a new wrapper whose attributes refer to the same objects.
  \<^verbatim>\<open>np.array(x)\<close> makes a new array with the contents of \<open>x\<close>; for a uniform value it
  is \<open>np_array\<close>, which turns a Python number into a zero-dimensional array. The two
  dictionaries are replaced by new ones only when they are not empty. Each assignment of
  the method is one step below. \<open>result\<close> has an index buffer exactly when \<open>self\<close> has
  one, so \<^verbatim>\<open>np.array(self.vert_indices)\<close> is never applied to \<^verbatim>\<open>None\<close>.
\<close>

definition copy_vert_data :: "('v, 'n, 'w::len word) store \<Rightarrow> addr \<Rightarrow> addr \<Rightarrow> ('v, 'n, 'w::len word) store" where
  "copy_vert_data s self result =
     (let (t, a) = alloc_array s (arrays s (vert_data (objs s self)))
      in set_obj t result ((objs t result)\<lparr>vert_data := a\<rparr>))"

definition copy_vert_indices :: "('v, 'n, 'w::len word) store \<Rightarrow> addr \<Rightarrow> addr \<Rightarrow> ('v, 'n, 'w::len word) store" where
  "copy_vert_indices s self result =
     (case vert_indices (objs s result) of
        None \<Rightarrow> s
      | Some _ \<Rightarrow>
          (case vert_indices (objs s self) of
             None \<Rightarrow> s
           | Some b \<Rightarrow>
               (let (t, b') = alloc_index_array s (index_arrays s b)
                in set_obj t result ((objs t result)\<lparr>vert_indices := Some b'\<rparr>))))"

definition copy_uniforms :: "('v, 'n, 'w::len word) store \<Rightarrow> addr \<Rightarrow> addr \<Rightarrow> ('v, 'n, 'w::len word) store" where
  "copy_uniforms s self result =
     (if uniform_dicts s (uniforms (objs s self)) \<noteq> []
      then (let (t, u) = alloc_uniform_dict s
                           (map (\<lambda>(key, v). (key, np_array v))
                              (uniform_dicts s (uniforms (objs s self))))
            in set_obj t result ((objs t result)\<lparr>uniforms := u\<rparr>))
      else s)"

definition copy_texture_paths :: "('v, 'n, 'w::len word) store \<Rightarrow> addr \<Rightarrow> addr \<Rightarrow> ('v, 'n, 'w::len word) store" where
  "copy_texture_paths s self result =
     (if texture_dicts s (texture_paths (objs s self)) \<noteq> []
      then (let (t, u) = alloc_texture_dict s (texture_dicts s (texture_paths (objs s self)))
            in set_obj t result ((objs t result)\<lparr>texture_paths := u\<rparr>))
      else s)"

definition copy :: "('v, 'n, 'w::len word) store \<Rightarrow> addr \<Rightarrow> ('v, 'n, 'w::len word) store \<times> addr" where
  "copy s self =
     (let (s1, result) = alloc_obj s (objs s self);
          s2 = copy_vert_data s1 self result;
          s3 = copy_vert_indices s2 self result;
          s4 = copy_uniforms s3 self result;
          s5 = copy_texture_paths s4 self result
      in (s5, result))"

subsection \<open>Identity: \<^verbatim>\<open>create_program_id\<close>, \<^verbatim>\<open>create_id\<close>, \<^verbatim>\<open>refresh_id\<close>\<close>

text \<open>
  \<^verbatim>\<open>str(d)\<close> for a dictionary: the items in insertion order, each printed with
  \<^verbatim>\<open>repr\<close>. The printers of keys and values are parameters.
\<close>

definition str_dict :: "(string \<Rightarrow> string) \<Rightarrow> ('a \<Rightarrow> string) \<Rightarrow> (string \<times> 'a) list \<Rightarrow> string" where
  "str_dict repr_key repr_value d =
     ''{'' @ join '', '' (map (\<lambda>(key, v). repr_key key @ '': '' @ repr_value v) d) @ ''}''"

text \<open>
  \<^verbatim>\<open>hash\<close> of a string is the parameter \<open>hash\<close>: a function that is fixed while the
  interpreter runs.
\<close>

definition create_program_id :: "(string \<Rightarrow> int) \<Rightarrow> ('v, 'n, 'w::len word) store \<Rightarrow> addr \<Rightarrow> int" where
  "create_program_id hash s self =
     (let code = code_dicts s (program_code (objs s self))
      in hash (concat (map (\<lambda>c. case c of None \<Rightarrow> [] | Some t \<Rightarrow> t)
                         [vertex_shader code, geometry_shader code, fragment_shader code])))"

definition create_id ::
  "(string \<Rightarrow> string) \<Rightarrow> ('n uval \<Rightarrow> string) \<Rightarrow> ('v, 'n, 'w::len word) store \<Rightarrow> addr \<Rightarrow> string" where
  "create_id repr_str repr_uval s self =
     (let me = objs s self
      in join ''|''
           [str_int (program_id me),
            str_dict repr_str repr_uval (uniform_dicts s (uniforms me)),
            str_dict repr_str repr_str (texture_dicts s (texture_paths me)),
            str_bool (depth_test me),
            render_primitive me])"


text \<open>
  Writing new contents into a buffer in place (\<^verbatim>\<open>a[...] = ...\<close> by a caller): the array
  object stays the same and no wrapper is touched.
\<close>

definition write_array :: "('v, 'n, 'w::len word) store \<Rightarrow> addr \<Rightarrow> 'v list \<Rightarrow> ('v, 'n, 'w::len word) store" where
  "write_array s a xs = s\<lparr>arrays := (arrays s)(a := xs)\<rparr>"

definition write_index_array :: "('v, 'n, 'w::len word) store \<Rightarrow> addr \<Rightarrow> 'w word list \<Rightarrow> ('v, 'n, 'w::len word) store" where
  "write_index_array s a xs = s\<lparr>index_arrays := (index_arrays s)(a := xs)\<rparr>"

text \<open>\<^verbatim>\<open>d[key] = v\<close> on a dictionary: an existing key keeps its place, a new key goes last.\<close>

fun dict_set :: "(string \<times> 'a) list \<Rightarrow> string \<Rightarrow> 'a \<Rightarrow> (string \<times> 'a) list" where
  "dict_set [] key v = [(key, v)]"
| "dict_set ((k, w) # d) key v = (if k = key then (k, v) # d else (k, w) # dict_set d key v)"

definition set_uniform :: "('v, 'n, 'w::len word) store \<Rightarrow> addr \<Rightarrow> string \<Rightarrow> 'n uval \<Rightarrow> ('v, 'n, 'w::len word) store" where
  "set_uniform s w key v =
     (let u = uniforms (objs s w)
      in s\<lparr>uniform_dicts := (uniform_dicts s)(u := dict_set (uniform_dicts s u) key v)\<rparr>)"

definition set_texture_path :: "('v, 'n, 'w::len word) store \<Rightarrow> addr \<Rightarrow> string \<Rightarrow> string \<Rightarrow> ('v, 'n, 'w::len word) store" where
  "set_texture_path s w key v =
     (let u = texture_paths (objs s w)
      in s\<lparr>texture_dicts := (texture_dicts s)(u := dict_set (texture_dicts s u) key v)\<rparr>)"

subsection \<open>\<^verbatim>\<open>read_in\<close> and \<^verbatim>\<open>combine_with\<close>\<close>

text \<open>\<^verbatim>\<open>sum(len(sw.vert_data) for sw in shader_wrappers)\<close>\<close>

definition sum_vert_len :: "('v, 'n, 'w::len word) store \<Rightarrow> addr list \<Rightarrow> nat" where
  "sum_vert_len s sws = sum_list (map (\<lambda>sw. length (vertices s sw)) sws)"

text \<open>
  \<^verbatim>\<open>sum(len(sw.vert_indices) for sw in shader_wrappers)\<close>: \<^verbatim>\<open>len(None)\<close> raises
  \<^verbatim>\<open>TypeError\<close>.
\<close>

fun sum_index_len :: "('v, 'n, 'w::len word) store \<Rightarrow> addr list \<Rightarrow> py_error + nat" where
  "sum_index_len s [] = Inr 0"
| "sum_index_len s (sw # sws) =
     (case vert_indices (objs s sw) of
        None \<Rightarrow> Inl TypeError
      | Some c \<Rightarrow>
          (case sum_index_len s sws of
             Inl e \<Rightarrow> Inl e
           | Inr rest \<Rightarrow> Inr (length (index_arrays s c) + rest)))"

text \<open>One round of the loop \<^verbatim>\<open>for sw in shader_wrappers\<close>, returning the new cursors.\<close>

definition read_step ::
  "('v, 'n, 'w::len word) store \<Rightarrow> addr \<Rightarrow> addr \<Rightarrow> nat \<Rightarrow> nat \<Rightarrow> py_error + (('v, 'n, 'w::len word) store \<times> nat \<times> nat)" where
  "read_step s self sw n_points n_verts =
     (let me = objs s self; src = objs s sw;
          new_n_points = n_points + length (arrays s (vert_data src))
      in case slice_assign (arrays s (vert_data me)) n_points new_n_points
                (arrays s (vert_data src)) of
           Inl e \<Rightarrow> Inl e
         | Inr xs \<Rightarrow>
             (let s1 = write_array s (vert_data me) xs
              in case (vert_indices me, vert_indices src) of
                   (Some b, Some c) \<Rightarrow>
                     (let new_n_verts = n_verts + length (index_arrays s1 c)
                      in case slice_assign (index_arrays s1 b) n_verts new_n_verts
                                (map (\<lambda>i. i + of_nat n_points) (index_arrays s1 c)) of
                           Inl e \<Rightarrow> Inl e
                         | Inr ys \<Rightarrow> Inr (write_index_array s1 b ys, new_n_points, new_n_verts))
                 | _ \<Rightarrow> Inr (s1, new_n_points, n_verts)))"

fun read_loop ::
  "('v, 'n, 'w::len word) store \<Rightarrow> addr \<Rightarrow> addr list \<Rightarrow> nat \<Rightarrow> nat \<Rightarrow> py_error + ('v, 'n, 'w::len word) store" where
  "read_loop s self [] n_points n_verts = Inr s"
| "read_loop s self (sw # sws) n_points n_verts =
     (case read_step s self sw n_points n_verts of
        Inl e \<Rightarrow> Inl e
      | Inr (s', n_points', n_verts') \<Rightarrow> read_loop s' self sws n_points' n_verts')"

text \<open>The method returns \<open>self\<close>; the model returns the store in which \<open>self\<close> was updated.\<close>

definition read_in :: "('v::zero, 'n, 'w::len word) store \<Rightarrow> addr \<Rightarrow> addr list \<Rightarrow> py_error + ('v, 'n, 'w::len word) store" where
  "read_in s self shader_wrappers =
     (let total_len = sum_vert_len s shader_wrappers;
          (s1, a) = resize_array s (vert_data (objs s self)) total_len;
          s2 = set_obj s1 self ((objs s1 self)\<lparr>vert_data := a\<rparr>)
      in case vert_indices (objs s2 self) of
           None \<Rightarrow> read_loop s2 self shader_wrappers 0 0
         | Some b \<Rightarrow>
             (case sum_index_len s2 shader_wrappers of
                Inl e \<Rightarrow> Inl e
              | Inr total_verts \<Rightarrow>
                  (let (s3, b') = resize_index_array s2 b total_verts;
                       s4 = set_obj s3 self ((objs s3 self)\<lparr>vert_indices := Some b'\<rparr>)
                   in read_loop s4 self shader_wrappers 0 0)))"

definition combine_with :: "('v::zero, 'n, 'w::len word) store \<Rightarrow> addr \<Rightarrow> addr list \<Rightarrow> py_error + ('v, 'n, 'w::len word) store" where
  "combine_with s self shader_wrappers =
     (if length shader_wrappers > 0
      then (let (s1, c) = copy s self in read_in s1 self (c # shader_wrappers))
      else Inr s)"

text \<open>
  The index buffer of a wrapper as a list (empty when there is none), the index buffer a
  merge is expected to produce from a list of sources (each source's indices raised by the
  number of vertices before it, starting from \<open>p\<close>), and the block \<open>xs[start : start + n]\<close>
  of a buffer.
\<close>

definition index_list :: "('v, 'n, 'w::len word) store \<Rightarrow> addr \<Rightarrow> 'w word list" where
  "index_list s w = (case vert_indices (objs s w) of None \<Rightarrow> [] | Some c \<Rightarrow> index_arrays s c)"

fun offset_blocks :: "nat \<Rightarrow> ('v list \<times> 'w::len word list) list \<Rightarrow> 'w word list" where
  "offset_blocks p [] = []"
| "offset_blocks p ((vs, ixs) # rest) = map (\<lambda>i. i + of_nat p) ixs @ offset_blocks (p + length vs) rest"

definition block :: "nat \<Rightarrow> nat \<Rightarrow> 'a list \<Rightarrow> 'a list" where
  "block start n xs = take n (drop start xs)"

section \<open>Example inputs\<close>

text \<open>A fragment file whose only line inserts a file that does not exist.\<close>

definition missing_insert_fs :: "string \<Rightarrow> file_state" where
  "missing_insert_fs name =
     (if name = ''quad/frag.glsl'' then Readable ''#INSERT absent.glsl'' else Missing)"

text \<open>A file that exists but cannot be opened for reading.\<close>

definition unreadable_fs :: "string \<Rightarrow> file_state" where
  "unreadable_fs name = (if name = ''quad/frag.glsl'' then Unreadable else Missing)"


text \<open>
  A file whose second directive line begins with the text of its first one, and a file
  with a directive whose fragment has a directive of its own.
\<close>

definition overlap_fs :: "string \<Rightarrow> file_state" where
  "overlap_fs name =
     (if name = ''quad/frag.glsl''
      then Readable (''#INSERT a.glsl'' @ [newline] @ ''#INSERT a.glsl.glsl'')
      else if name = ''inserts/a.glsl'' then Readable ''A''
      else if name = ''inserts/a.glsl.glsl'' then Readable ''B''
      else Missing)"

definition nested_fs :: "string \<Rightarrow> file_state" where
  "nested_fs name =
     (if name = ''quad/frag.glsl''
      then Readable (''#version 330'' @ [newline] @ ''#INSERT finalize_color.glsl'' @ [newline]
                     @ ''void main() {}'')
      else if name = ''inserts/finalize_color.glsl''
      then Readable (''#INSERT get_unit_normal.glsl'' @ [newline] @ ''vec4 finalize_color() {}'')
      else if name = ''inserts/get_unit_normal.glsl'' then Readable ''vec3 get_unit_normal() {}''
      else Missing)"


text \<open>
  A store with several wrappers of the same shader folder, with \<^verbatim>\<open>int64\<close> indices.
  Wrappers 0 and 3 share their buffers; wrappers 1 and 4 have separate buffers with the
  same contents; wrappers 2 and 7 have no index buffer; the uniform dictionaries of
  wrappers 5 and 6 hold the same entries, inserted in a different order; the index buffer
  of wrapper 8 holds the largest \<^verbatim>\<open>int64\<close>.
\<close>

definition quad :: shader_wrapper where
  "quad = \<lparr>vert_data = 10, vert_indices = Some 11, vert_attributes = [''point'', ''rgba''],
            shader_folder = ''quadratic_bezier_fill'', uniforms = 12, texture_paths = 13,
            depth_test = False, use_clip_plane = False, render_primitive = ''5'',
            program_code = 14, program_id = 77, id_field = ''77|{}|{}|False|5''\<rparr>"

definition demo_store :: "(int, int, 64 word) store" where
  "demo_store =
     \<lparr>objs = (\<lambda>_. quad)
         (1 := quad\<lparr>vert_data := 20, vert_indices := Some 21, uniforms := 22, texture_paths := 23\<rparr>,
          2 := quad\<lparr>vert_data := 30, vert_indices := None, uniforms := 32, texture_paths := 33\<rparr>,
          3 := quad\<lparr>uniforms := 22\<rparr>,
          4 := quad\<lparr>vert_data := 40, vert_indices := Some 41, uniforms := 42, texture_paths := 43\<rparr>,
          5 := quad\<lparr>uniforms := 52\<rparr>,
          6 := quad\<lparr>uniforms := 62\<rparr>,
          7 := quad\<lparr>vert_data := 35, vert_indices := None, uniforms := 32, texture_paths := 33\<rparr>,
          8 := quad\<lparr>vert_data := 45, vert_indices := Some 46, uniforms := 32, texture_paths := 33\<rparr>),
      arrays = (\<lambda>_. [])(10 := [100, 101, 102], 20 := [200, 201], 30 := [300], 40 := [200, 201],
                          35 := [700], 45 := [800]),
      index_arrays = (\<lambda>_. [])(11 := [0, 1, 2, 2, 1, 0], 21 := [0, 1, 1], 41 := [0, 1, 1],
                                46 := [9223372036854775807]),
      uniform_dicts = (\<lambda>_. [])
         (22 := [(''scale'', Scalar 2)],
          42 := [(''scale'', Scalar 2)],
          52 := [(''a'', Scalar 1), (''b'', Scalar 2)],
          62 := [(''b'', Scalar 2), (''a'', Scalar 1)]),
      texture_dicts = (\<lambda>_. []),
      code_dicts = (\<lambda>_. \<lparr>vertex_shader = Some ''void main() {}'', geometry_shader = None,
                           fragment_shader = Some ''void main() {}''\<rparr>),
      next_addr = 70\<rparr>"



text \<open>The numbers a uniform value holds.\<close>

fun uval_numbers :: "'n uval \<Rightarrow> 'n list" where
  "uval_numbers (Scalar x) = [x]"
| "uval_numbers (Array0 x) = [x]"
| "uval_numbers (Vector xs) = xs"

text \<open>
  Structural agreement of two wrappers, in the words of the specification: the same buffer
  contents, folder, flags and tag, and dictionaries that are equal as maps.
\<close>

definition agree :: "('v, 'n, 'w::len word) store \<Rightarrow> addr \<Rightarrow> addr \<Rightarrow> bool" where
  "agree s a b \<longleftrightarrow>
     vertices s a = vertices s b \<and>
     indices s a = indices s b \<and>
     shader_folder (objs s a) = shader_folder (objs s b) \<and>
     map_of (uniform_dicts s (uniforms (objs s a))) = map_of (uniform_dicts s (uniforms (objs s b))) \<and>
     map_of (texture_dicts s (texture_paths (objs s a))) =
       map_of (texture_dicts s (texture_paths (objs s b))) \<and>
     depth_test (objs s a) = depth_test (objs s b) \<and>
     render_primitive (objs s a) = render_primitive (objs s b)"


section \<open>Properties of \<^verbatim>\<open>get_colormap_code\<close>\<close>

text \<open>
  Claim C10. For the triples \<open>[(1,0,0), (0,1,0)]\<close> the helper returns exactly
  \<^verbatim>\<open>vec3[2](vec3(1, 0, 0),vec3(0, 1, 0))\<close>; for any list of \<open>N\<close> triples it returns
  \<^verbatim>\<open>vec3[N](...)\<close> with one \<^verbatim>\<open>vec3(r, g, b)\<close> entry per triple, separated by commas,
  in the order of the list.
\<close>

theorem get_colormap_code_literal:
  "get_colormap_code str_int [(1, 0, 0), (0, 1, 0)] = ''vec3[2](vec3(1, 0, 0),vec3(0, 1, 0))''
   \<and> get_colormap_code str_c rgb_list =
       ''vec3['' @ str_nat (length rgb_list) @ '']('' @
       join '','' (map (\<lambda>(r, g, b). ''vec3('' @ str_c r @ '', '' @ str_c g @ '', '' @ str_c b @ '')'')
                     rgb_list) @
       '')''"
proof
  show "get_colormap_code str_int [(1, 0, 0), (0, 1, 0)] = ''vec3[2](vec3(1, 0, 0),vec3(0, 1, 0))''"
    by (simp add: get_colormap_code_def format_vec3_def str_int_def str_nat.simps digit_char_def)
next
  have "format_vec3 str_c =
        (\<lambda>(r, g, b). ''vec3('' @ str_c r @ '', '' @ str_c g @ '', '' @ str_c b @ '')'')"
    by (rule ext) (simp add: format_vec3_def)
  then show "get_colormap_code str_c rgb_list =
       ''vec3['' @ str_nat (length rgb_list) @ '']('' @
       join '','' (map (\<lambda>(r, g, b). ''vec3('' @ str_c r @ '', '' @ str_c g @ '', '' @ str_c b @ '')'')
                     rgb_list) @
       '')''"
    by (simp add: get_colormap_code_def)
qed

section \<open>Properties of \<^verbatim>\<open>get_shader_code_from_file\<close>\<close>

lemmas eval_file_defs =
  find_file_def open_read_def insertions_def is_insert_line_def insert_target_def
  path_join_def str_replace_def newline_def suffix_to_prefix

text \<open>
  Claim C2. Resolution never raises: a missing or unreadable file yields \<^verbatim>\<open>None\<close>, and a
  directive whose file is not found makes the enclosing resolution yield \<^verbatim>\<open>None\<close>.

  The function does return \<^verbatim>\<open>None\<close> for the missing file itself, but the enclosing call
  passes that \<^verbatim>\<open>None\<close> to \<^verbatim>\<open>str.replace\<close> and raises \<^verbatim>\<open>TypeError\<close>; a file that is
  found but cannot be opened raises \<^verbatim>\<open>OSError\<close>, since \<^verbatim>\<open>open\<close> stands outside the
  \<^verbatim>\<open>try\<close> block.
\<close>

theorem missing_insert_raises_TypeError:
  "get_shader_code_from_file missing_insert_fs (Suc depth) ''inserts/absent.glsl'' = Inr None
   \<and> get_shader_code_from_file missing_insert_fs (Suc (Suc depth)) ''quad/frag.glsl'' = Inl TypeError
   \<and> get_shader_code_from_file unreadable_fs (Suc depth) ''quad/frag.glsl'' = Inl OSError"
  by (simp add: missing_insert_fs_def unreadable_fs_def eval_file_defs)





section \<open>Properties of \<^verbatim>\<open>ShaderWrapper\<close>\<close>

lemmas eval_store_defs =
  demo_store_def quad_def alloc_obj_def alloc_array_def alloc_index_array_def
  alloc_uniform_dict_def alloc_texture_dict_def set_obj_def vertices_def indices_def
  copy_def copy_vert_data_def copy_vert_indices_def copy_uniforms_def copy_texture_paths_def
  write_array_def write_index_array_def Let_def

subsection \<open>\<^verbatim>\<open>copy\<close>\<close>

text \<open>
  Claim C8. \<^verbatim>\<open>copy()\<close> returns a wrapper equal to the original, and a later mutation of
  the copy's buffers or dictionaries leaves the original unaltered, also when the
  dictionaries were empty at the time of the copy.

  Wrapper 0 of the example store has an empty uniform dictionary and an empty texture
  dictionary. Its copy is a new wrapper, but it refers to the very same two dictionaries:
  an entry stored through the copy appears in the original.
\<close>

theorem copy_shares_empty_dicts:
  "(case copy demo_store 0 of
      (s, c) \<Rightarrow>
        (c \<noteq> 0,
         uniform_dicts s (uniforms (objs s 0)),
         uniform_dicts (set_uniform s c ''scale'' (Scalar 2)) (uniforms (objs s 0)),
         texture_dicts s (texture_paths (objs s 0)),
         texture_dicts (set_texture_path s c ''Texture'' ''a.png'') (texture_paths (objs s 0))))
   = (True, [], [(''scale'', Scalar 2)], [], [(''Texture'', ''a.png'')])"
  by code_simp

subsection \<open>\<^verbatim>\<open>__eq__\<close>\<close>

lemma np_all_eq_same:
  "np_all_eq eq xs xs = Inr True \<longleftrightarrow> (\<forall>x\<in>set xs. eq x x)"
  by (simp add: np_all_eq_def list_all2_same)

lemma np_all_eq_opt_refl: "np_all_eq_opt x x = Inr True"
  by (cases x) (simp_all add: np_all_eq_same)

lemma uval_all_eq_same:
  "\<forall>n\<in>set (uval_numbers v). eq n n \<Longrightarrow> uval_all_eq eq v v = Inr True"
  by (cases v) (simp_all add: np_all_eq_same)

lemma all_keys_eq_True_iff:
  "all_keys_eq cmp keys mine other = Inr True \<longleftrightarrow>
     (\<forall>key\<in>set keys. \<exists>v v'. map_of mine key = Some v \<and> map_of other key = Some v' \<and>
        cmp v v' = Inr True)"
  by (induction keys) (auto split: option.splits sum.splits)

lemma dict_all_eq_True_iff:
  "dict_all_eq cmp mine other = Inr True \<longleftrightarrow>
     (\<forall>key\<in>fst ` set mine. \<exists>v v'. map_of mine key = Some v \<and> map_of other key = Some v' \<and>
        cmp v v' = Inr True)"
  by (simp add: dict_all_eq_def all_keys_eq_True_iff)

lemma dict_all_eq_same_map:
  assumes "map_of mine = map_of other" and "\<And>key v. (key, v) \<in> set mine \<Longrightarrow> cmp v v = Inr True"
  shows "dict_all_eq cmp mine other = Inr True"
proof -
  have "\<exists>v v'. map_of mine key = Some v \<and> map_of other key = Some v' \<and> cmp v v' = Inr True"
    if "key \<in> fst ` set mine" for key
  proof -
    from that obtain v where v: "map_of mine key = Some v"
      by (cases "map_of mine key") (auto simp: map_of_eq_None_iff)
    then have "(key, v) \<in> set mine" by (rule map_of_SomeD)
    with assms v show ?thesis by auto
  qed
  then show ?thesis by (simp add: dict_all_eq_True_iff)
qed

lemma sw_eq_True_iff:
  "sw_eq veq neq s a b = Inr True \<longleftrightarrow>
     np_all_eq veq (vertices s a) (vertices s b) = Inr True \<and>
     np_all_eq_opt (indices s a) (indices s b) = Inr True \<and>
     shader_folder (objs s a) = shader_folder (objs s b) \<and>
     dict_all_eq (uval_all_eq neq) (uniform_dicts s (uniforms (objs s a)))
       (uniform_dicts s (uniforms (objs s b))) = Inr True \<and>
     dict_all_eq (\<lambda>p q. Inr (p = q)) (texture_dicts s (texture_paths (objs s a)))
       (texture_dicts s (texture_paths (objs s b))) = Inr True \<and>
     depth_test (objs s a) = depth_test (objs s b) \<and>
     render_primitive (objs s a) = render_primitive (objs s b)"
  by (auto simp: sw_eq_def vertices_def Let_def split: sum.splits)

text \<open>
  Claim C9, as stated, fails. Wrappers 0 and 3 of the example store differ in their uniform
  dictionaries only: that of wrapper 0 is empty, that of wrapper 3 has an entry. Only the
  keys of the left operand are compared, so \<^verbatim>\<open>__eq__\<close> returns true although the
  wrappers do not agree on the UniformMap; with these two operands exchanged it raises
  \<^verbatim>\<open>KeyError\<close>. (The elements are integers, which numpy compares as HOL does.)
\<close>

theorem eq_counterexample:
  "sw_eq (=) (=) demo_store 0 3 = Inr True \<and> \<not> agree demo_store 0 3
   \<and> sw_eq (=) (=) demo_store 3 0 = Inl KeyError"
proof -
  have "map_of (uniform_dicts demo_store (uniforms (objs demo_store 0))) ''scale''
        \<noteq> map_of (uniform_dicts demo_store (uniforms (objs demo_store 3))) ''scale''"
    by (simp add: eval_store_defs)
  then have "\<not> agree demo_store 0 3"
    unfolding agree_def by metis
  moreover have "sw_eq (=) (=) demo_store 0 3 = Inr True"
    by (simp add: sw_eq_def dict_all_eq_def np_all_eq_def eval_store_defs list_all2_same)
  moreover have "sw_eq (=) (=) demo_store 3 0 = Inl KeyError"
    by (simp add: sw_eq_def dict_all_eq_def np_all_eq_def eval_store_defs list_all2_same)
  ultimately show ?thesis by simp
qed

text \<open>
  Claim C9, amended. \<^verbatim>\<open>__eq__\<close> returns true exactly when the folder, the depth flag and
  the primitive tag are equal, the two vertex buffers and the two index buffers compare
  equal under \<^verbatim>\<open>np.all(a == b)\<close>, and every key of the left wrapper's UniformMap and
  TextureMap is a key of the right wrapper's with a value that compares equal; keys that
  only the right wrapper has are ignored. The clip-plane flag and the program code (so the
  geometry source) play no part in the result. In particular \<^verbatim>\<open>__eq__\<close> returns true if
  the two wrappers agree structurally on vertex buffer, index buffer, folder, UniformMap,
  TextureMap, depth flag and primitive tag and every vertex and every uniform number of
  the left wrapper compares equal to itself (none of them is NaN).
\<close>

theorem eq_characterisation:
  "(sw_eq veq neq s a b = Inr True \<longleftrightarrow>
        np_all_eq veq (vertices s a) (vertices s b) = Inr True \<and>
        np_all_eq_opt (indices s a) (indices s b) = Inr True \<and>
        shader_folder (objs s a) = shader_folder (objs s b) \<and>
        (\<forall>key\<in>fst ` set (uniform_dicts s (uniforms (objs s a))).
           \<exists>v v'. map_of (uniform_dicts s (uniforms (objs s a))) key = Some v \<and>
                  map_of (uniform_dicts s (uniforms (objs s b))) key = Some v' \<and>
                  uval_all_eq neq v v' = Inr True) \<and>
        (\<forall>key\<in>fst ` set (texture_dicts s (texture_paths (objs s a))).
           \<exists>v v'. map_of (texture_dicts s (texture_paths (objs s a))) key = Some v \<and>
                  map_of (texture_dicts s (texture_paths (objs s b))) key = Some v' \<and>
                  v = v') \<and>
        depth_test (objs s a) = depth_test (objs s b) \<and>
        render_primitive (objs s a) = render_primitive (objs s b))
   \<and> sw_eq veq neq (set_obj (s\<lparr>code_dicts := cd\<rparr>) a
         ((objs s a)\<lparr>use_clip_plane := c, program_code := p\<rparr>)) a b
       = sw_eq veq neq s a b
   \<and> (agree s a b
        \<and> (\<forall>x\<in>set (vertices s a). veq x x)
        \<and> (\<forall>(key, v)\<in>set (uniform_dicts s (uniforms (objs s a))). \<forall>n\<in>set (uval_numbers v). neq n n)
        \<longrightarrow> sw_eq veq neq s a b = Inr True)"
proof (intro conjI impI)
  show "sw_eq veq neq s a b = Inr True \<longleftrightarrow>
        np_all_eq veq (vertices s a) (vertices s b) = Inr True \<and>
        np_all_eq_opt (indices s a) (indices s b) = Inr True \<and>
        shader_folder (objs s a) = shader_folder (objs s b) \<and>
        (\<forall>key\<in>fst ` set (uniform_dicts s (uniforms (objs s a))).
           \<exists>v v'. map_of (uniform_dicts s (uniforms (objs s a))) key = Some v \<and>
                  map_of (uniform_dicts s (uniforms (objs s b))) key = Some v' \<and>
                  uval_all_eq neq v v' = Inr True) \<and>
        (\<forall>key\<in>fst ` set (texture_dicts s (texture_paths (objs s a))).
           \<exists>v v'. map_of (texture_dicts s (texture_paths (objs s a))) key = Some v \<and>
                  map_of (texture_dicts s (texture_paths (objs s b))) key = Some v' \<and>
                  v = v') \<and>
        depth_test (objs s a) = depth_test (objs s b) \<and>
        render_primitive (objs s a) = render_primitive (objs s b)"
    by (simp add: sw_eq_True_iff dict_all_eq_True_iff)
next
  show "sw_eq veq neq (set_obj (s\<lparr>code_dicts := cd\<rparr>) a
         ((objs s a)\<lparr>use_clip_plane := c, program_code := p\<rparr>)) a b
       = sw_eq veq neq s a b"
  proof (cases "b = a")
    case True
    then show ?thesis
      by (simp add: sw_eq_def set_obj_def indices_def Let_def cong: sum.case_cong)
  next
    case False
    then show ?thesis
      by (simp add: sw_eq_def set_obj_def indices_def Let_def cong: sum.case_cong)
  qed
next
  assume h: "agree s a b
        \<and> (\<forall>x\<in>set (vertices s a). veq x x)
        \<and> (\<forall>(key, v)\<in>set (uniform_dicts s (uniforms (objs s a))). \<forall>n\<in>set (uval_numbers v). neq n n)"
  then have ag: "agree s a b" by simp
  have "dict_all_eq (uval_all_eq neq) (uniform_dicts s (uniforms (objs s a)))
       (uniform_dicts s (uniforms (objs s b))) = Inr True"
  proof (rule dict_all_eq_same_map)
    show "map_of (uniform_dicts s (uniforms (objs s a))) = map_of (uniform_dicts s (uniforms (objs s b)))"
      using ag by (simp add: agree_def)
  next
    fix key v assume "(key, v) \<in> set (uniform_dicts s (uniforms (objs s a)))"
    with h have "\<forall>n\<in>set (uval_numbers v). neq n n" by auto
    then show "uval_all_eq neq v v = Inr True" by (rule uval_all_eq_same)
  qed
  moreover from ag have "dict_all_eq (\<lambda>p q. Inr (p = q)) (texture_dicts s (texture_paths (objs s a)))
       (texture_dicts s (texture_paths (objs s b))) = Inr True"
    by (intro dict_all_eq_same_map) (simp_all add: agree_def)
  moreover from h have "np_all_eq veq (vertices s a) (vertices s b) = Inr True"
    by (simp add: agree_def np_all_eq_same)
  ultimately show "sw_eq veq neq s a b = Inr True"
    using ag by (simp add: sw_eq_True_iff agree_def np_all_eq_opt_refl)
qed

theorem eq_characterisation_witness:
  "agree demo_store 1 4
   \<and> sw_eq (=) (=) demo_store 1 4 = Inr True
   \<and> ''scale'' \<in> fst ` set (uniform_dicts demo_store (uniforms (objs demo_store 1)))"
proof -
  have ag: "agree demo_store 1 4"
    by (simp add: agree_def eval_store_defs)
  have k: "''scale'' \<in> fst ` set (uniform_dicts demo_store (uniforms (objs demo_store 1)))"
    by (simp add: eval_store_defs)
  have r: "(\<forall>x\<in>set (vertices demo_store 1). x = x)
   \<and> (\<forall>(key, v)\<in>set (uniform_dicts demo_store (uniforms (objs demo_store 1))).
         \<forall>n\<in>set (uval_numbers v). n = n)"
    by simp
  from eq_characterisation [of "(=)" "(=)" demo_store 1 4] ag r
  have "sw_eq (=) (=) demo_store 1 4 = Inr True"
    by blast
  with ag k show ?thesis by blast
qed

subsection \<open>Identity\<close>




subsection \<open>What \<^verbatim>\<open>copy\<close>, \<^verbatim>\<open>read_in\<close> and \<^verbatim>\<open>combine_with\<close> do to the wrappers\<close>

lemma id_copy_vert_data:
  "id_field (objs (copy_vert_data s self r) x) = id_field (objs s x)
   \<and> program_id (objs (copy_vert_data s self r) x) = program_id (objs s x)"
  by (simp add: copy_vert_data_def alloc_array_def set_obj_def)

lemma id_copy_vert_indices:
  "id_field (objs (copy_vert_indices s self r) x) = id_field (objs s x)
   \<and> program_id (objs (copy_vert_indices s self r) x) = program_id (objs s x)"
  by (simp add: copy_vert_indices_def alloc_index_array_def set_obj_def split: option.splits)

lemma id_copy_uniforms:
  "id_field (objs (copy_uniforms s self r) x) = id_field (objs s x)
   \<and> program_id (objs (copy_uniforms s self r) x) = program_id (objs s x)"
  by (simp add: copy_uniforms_def alloc_uniform_dict_def set_obj_def)

lemma id_copy_texture_paths:
  "id_field (objs (copy_texture_paths s self r) x) = id_field (objs s x)
   \<and> program_id (objs (copy_texture_paths s self r) x) = program_id (objs s x)"
  by (simp add: copy_texture_paths_def alloc_texture_dict_def set_obj_def)

lemma id_copy:
  "id_field (objs (fst (copy s self)) self) = id_field (objs s self)
   \<and> program_id (objs (fst (copy s self)) self) = program_id (objs s self)"
  by (simp add: copy_def Let_def alloc_obj_def id_copy_vert_data id_copy_vert_indices
      id_copy_uniforms id_copy_texture_paths)

lemma objs_read_step:
  "read_step s self sw p q = Inr (s', p', q') \<Longrightarrow> objs s' = objs s"
  by (auto simp: read_step_def Let_def write_array_def write_index_array_def
      split: sum.splits option.splits)

lemma objs_read_loop:
  "read_loop s self sws p q = Inr s' \<Longrightarrow> objs s' = objs s"
proof (induction sws arbitrary: s p q)
  case Nil
  then show ?case by simp
next
  case (Cons sw sws)
  then show ?case
    by (auto split: sum.splits dest: objs_read_step)
qed

lemma objs_resize_array: "objs (fst (resize_array s a n)) = objs s"
  by (simp add: resize_array_def alloc_array_def)

lemma objs_resize_index_array: "objs (fst (resize_index_array s a n)) = objs s"
  by (simp add: resize_index_array_def alloc_index_array_def)

lemma read_in_alt:
  "read_in s self sws =
     (let r1 = resize_array s (vert_data (objs s self)) (sum_vert_len s sws);
          s2 = set_obj (fst r1) self ((objs (fst r1) self)\<lparr>vert_data := snd r1\<rparr>)
      in case vert_indices (objs s2 self) of
           None \<Rightarrow> read_loop s2 self sws 0 0
         | Some b \<Rightarrow>
             (case sum_index_len s2 sws of
                Inl e \<Rightarrow> Inl e
              | Inr total_verts \<Rightarrow>
                  (let r3 = resize_index_array s2 b total_verts;
                       s4 = set_obj (fst r3) self ((objs (fst r3) self)\<lparr>vert_indices := Some (snd r3)\<rparr>)
                   in read_loop s4 self sws 0 0)))"
  unfolding read_in_def Let_def case_prod_beta by (rule refl)

lemma objs_read_in:
  assumes "read_in s self sws = Inr s'"
  shows "\<exists>a b. objs s' = (objs s)(self := (objs s self)\<lparr>vert_data := a, vert_indices := b\<rparr>)"
proof -
  define r1 where "r1 = resize_array s (vert_data (objs s self)) (sum_vert_len s sws)"
  define s2 where "s2 = set_obj (fst r1) self ((objs (fst r1) self)\<lparr>vert_data := snd r1\<rparr>)"
  have o2: "objs s2 = (objs s)(self := (objs s self)\<lparr>vert_data := snd r1\<rparr>)"
    by (simp add: s2_def r1_def set_obj_def objs_resize_array)
  show ?thesis
  proof (cases "vert_indices (objs s self)")
    case None
    with assms have "read_loop s2 self sws 0 0 = Inr s'"
      by (simp add: read_in_alt Let_def r1_def [symmetric] s2_def [symmetric] o2)
    then have "objs s' = objs s2" by (rule objs_read_loop)
    with o2 have "objs s' = (objs s)(self := (objs s self)\<lparr>vert_data := snd r1,
        vert_indices := vert_indices (objs s self)\<rparr>)"
      by simp
    then show ?thesis by blast
  next
    case (Some b)
    with assms obtain total_verts where tv: "sum_index_len s2 sws = Inr total_verts"
      by (auto simp: read_in_alt Let_def r1_def [symmetric] s2_def [symmetric] o2 split: sum.splits)
    define r3 where "r3 = resize_index_array s2 b total_verts"
    define s4 where "s4 = set_obj (fst r3) self ((objs (fst r3) self)\<lparr>vert_indices := Some (snd r3)\<rparr>)"
    have o4: "objs s4 = (objs s)(self := (objs s self)\<lparr>vert_data := snd r1, vert_indices := Some (snd r3)\<rparr>)"
      by (simp add: s4_def r3_def set_obj_def objs_resize_index_array o2)
    from assms Some tv have "read_loop s4 self sws 0 0 = Inr s'"
      by (simp add: read_in_alt Let_def r1_def [symmetric] s2_def [symmetric] o2
          r3_def [symmetric] s4_def [symmetric])
    then have "objs s' = objs s4" by (rule objs_read_loop)
    with o4 have "objs s' = (objs s)(self := (objs s self)\<lparr>vert_data := snd r1,
        vert_indices := Some (snd r3)\<rparr>)"
      by simp
    then show ?thesis by blast
  qed
qed

lemma id_read_in:
  assumes "read_in s self sws = Inr s'"
  shows "id_field (objs s' self) = id_field (objs s self)
         \<and> program_id (objs s' self) = program_id (objs s self)"
  using objs_read_in [OF assms] by auto

text \<open>
  Claim C6. Writing into the vertex buffer or the index buffer in place, without calling
  \<^verbatim>\<open>refresh_id\<close> or a method that changes the program code, leaves \<open>id\<close> and
  \<open>program_id\<close> of every wrapper unchanged (and computing them again would give the same
  values); a merge by \<^verbatim>\<open>combine_with\<close> that returns leaves \<open>id\<close> and \<open>program_id\<close> of
  the wrapper unchanged.
\<close>

theorem payload_independence:
  fixes s :: "('v::zero, 'n, 'w::len word) store"
  shows "id_field (objs (write_array s a xs) w) = id_field (objs s w)
   \<and> program_id (objs (write_array s a xs) w) = program_id (objs s w)
   \<and> id_field (objs (write_index_array s a ys) w) = id_field (objs s w)
   \<and> program_id (objs (write_index_array s a ys) w) = program_id (objs s w)
   \<and> create_id repr_str repr_uval (write_array s a xs) w = create_id repr_str repr_uval s w
   \<and> create_id repr_str repr_uval (write_index_array s a ys) w = create_id repr_str repr_uval s w
   \<and> create_program_id hash (write_array s a xs) w = create_program_id hash s w
   \<and> create_program_id hash (write_index_array s a ys) w = create_program_id hash s w
   \<and> (combine_with s w others = Inr s' \<longrightarrow>
        id_field (objs s' w) = id_field (objs s w) \<and> program_id (objs s' w) = program_id (objs s w))"
proof -
  have "id_field (objs s' w) = id_field (objs s w) \<and> program_id (objs s' w) = program_id (objs s w)"
    if c: "combine_with s w others = Inr s'"
  proof (cases "length others > 0")
    case True
    obtain s1 c where cp: "copy s w = (s1, c)"
      by (cases "copy s w")
    with c True have "read_in s1 w (c # others) = Inr s'"
      by (simp add: combine_with_def)
    then have "id_field (objs s' w) = id_field (objs s1 w) \<and> program_id (objs s' w) = program_id (objs s1 w)"
      by (rule id_read_in)
    moreover from id_copy [of s w] cp
    have "id_field (objs s1 w) = id_field (objs s w) \<and> program_id (objs s1 w) = program_id (objs s w)"
      by simp
    ultimately show ?thesis by simp
  next
    case False
    with c show ?thesis by (simp add: combine_with_def)
  qed
  then show ?thesis
    by (simp add: write_array_def write_index_array_def create_id_def create_program_id_def)
qed

theorem payload_independence_witness:
  "combine_with demo_store 0 [1] = Inr (projr (combine_with demo_store 0 [1]))
   \<and> id_field (objs (projr (combine_with demo_store 0 [1])) 0) = id_field (objs demo_store 0)
   \<and> program_id (objs (projr (combine_with demo_store 0 [1])) 0) = program_id (objs demo_store 0)"
proof -
  have "\<not> isl (combine_with demo_store 0 [1])"
    by code_simp
  then have r: "combine_with demo_store 0 [1] = Inr (projr (combine_with demo_store 0 [1]))"
    by simp
  from payload_independence [where s = demo_store and w = 0 and others = "[1]"
      and s' = "projr (combine_with demo_store 0 [1])"] r
  show ?thesis by blast
qed

subsection \<open>The merge loop\<close>

lemma slice_assign_fits:
  "i + length ys \<le> length xs \<Longrightarrow>
   slice_assign xs i (i + length ys) ys = Inr (take i xs @ ys @ drop (i + length ys) xs)"
  by (simp add: slice_assign_def Let_def min_def max_def)

lemma length_np_resize: "length (np_resize xs n) = n"
proof (cases "xs = []")
  case True
  then show ?thesis by (simp add: np_resize_def)
next
  case False
  then have "1 \<le> length xs" by (cases xs) auto
  then have "n * 1 \<le> n * length xs" by (rule mult_le_mono2)
  then have "n \<le> length (concat (replicate n xs))"
    by (simp add: length_concat sum_list_replicate)
  with False show ?thesis by (simp add: np_resize_def)
qed

lemma resize_array_props:
  assumes "resize_array s a n = (s1, A)"
  shows "length (arrays s1 A) = n" and "objs s1 = objs s" and "index_arrays s1 = index_arrays s"
    and "\<forall>x<next_addr s. arrays s1 x = arrays s x" and "next_addr s \<le> next_addr s1"
  using assms
  by (auto simp: resize_array_def alloc_array_def length_np_resize split: if_splits)

lemma resize_index_array_props:
  assumes "resize_index_array s b n = (s1, B)"
  shows "length (index_arrays s1 B) = n" and "objs s1 = objs s" and "arrays s1 = arrays s"
    and "\<forall>x<next_addr s. index_arrays s1 x = index_arrays s x" and "next_addr s \<le> next_addr s1"
  using assms
  by (auto simp: resize_index_array_def alloc_index_array_def length_np_resize split: if_splits)

lemma sum_index_len_Some:
  "\<forall>sw\<in>set sws. vert_indices (objs s sw) \<noteq> None \<Longrightarrow>
   sum_index_len s sws = Inr (sum_list (map (\<lambda>sw. length (index_list s sw)) sws))"
  by (induction sws) (auto simp: index_list_def)



lemma read_step_correct:
  fixes s :: "('v, 'n, 'w::len word) store" and self :: addr
  defines "A \<equiv> vert_data (objs s self)"
  assumes room: "p + length (vertices s sw) \<le> length (arrays s A)"
    and idx: "\<And>B. vert_indices (objs s self) = Some B \<Longrightarrow>
                vert_indices (objs s sw) \<noteq> None \<and> q + length (index_list s sw) \<le> length (index_arrays s B)"
  shows "\<exists>s'. read_step s self sw p q =
            Inr (s', p + length (vertices s sw),
                 if vert_indices (objs s self) = None then q else q + length (index_list s sw))
          \<and> objs s' = objs s
          \<and> arrays s' = (arrays s)(A := take p (arrays s A) @ vertices s sw
                                         @ drop (p + length (vertices s sw)) (arrays s A))
          \<and> index_arrays s' =
              (case vert_indices (objs s self) of
                 None \<Rightarrow> index_arrays s
               | Some B \<Rightarrow> (index_arrays s)
                   (B := take q (index_arrays s B) @ map (\<lambda>i. i + of_nat p) (index_list s sw)
                         @ drop (q + length (index_list s sw)) (index_arrays s B)))"
proof -
  have sl: "slice_assign (arrays s A) p (p + length (vertices s sw)) (vertices s sw) =
        Inr (take p (arrays s A) @ vertices s sw @ drop (p + length (vertices s sw)) (arrays s A))"
    using room by (rule slice_assign_fits)
  show ?thesis
  proof (cases "vert_indices (objs s self)")
    case None
    with sl show ?thesis
      by (simp add: read_step_def Let_def vertices_def A_def write_array_def)
  next
    case (Some B)
    from idx [OF Some] obtain c where c: "vert_indices (objs s sw) = Some c"
      and fit: "q + length (index_arrays s c) \<le> length (index_arrays s B)"
      by (auto simp: index_list_def)
    have "slice_assign (index_arrays s B) q (q + length (index_arrays s c))
            (map (\<lambda>i. i + of_nat p) (index_arrays s c)) =
          Inr (take q (index_arrays s B) @ map (\<lambda>i. i + of_nat p) (index_arrays s c)
               @ drop (q + length (index_arrays s c)) (index_arrays s B))"
      using slice_assign_fits [of q "map (\<lambda>i. i + of_nat p) (index_arrays s c)" "index_arrays s B"] fit
      by simp
    with sl Some c show ?thesis
      by (simp add: read_step_def Let_def vertices_def A_def write_array_def write_index_array_def
          index_list_def)
  qed
qed

lemma index_list_cong:
  "objs t = objs s \<Longrightarrow> index_arrays t = index_arrays s \<Longrightarrow> index_list t w = index_list s w"
  by (simp add: index_list_def split: option.splits)

lemma read_loop_correct:
  fixes s :: "('v, 'n, 'w::len word) store" and self :: addr
  assumes "length (arrays s (vert_data (objs s self))) =
             p + sum_list (map (\<lambda>sw. length (vertices s sw)) sws)"
    and "\<And>B. vert_indices (objs s self) = Some B \<Longrightarrow>
           (\<forall>sw\<in>set sws. vert_indices (objs s sw) \<noteq> None) \<and>
           length (index_arrays s B) = q + sum_list (map (\<lambda>sw. length (index_list s sw)) sws)"
  shows "\<exists>s'. read_loop s self sws p q = Inr s' \<and> objs s' = objs s
          \<and> arrays s' (vert_data (objs s self)) =
              take p (arrays s (vert_data (objs s self))) @ concat (map (vertices s) sws)
          \<and> (\<forall>B. vert_indices (objs s self) = Some B \<longrightarrow>
                index_arrays s' B =
                  take q (index_arrays s B)
                  @ offset_blocks p (map (\<lambda>sw. (vertices s sw, index_list s sw)) sws))"
  using assms
proof (induction sws arbitrary: s p q)
  case Nil
  then show ?case by auto
next
  case (Cons sw sws)
  define A where "A = vert_data (objs s self)"
  define n where "n = length (vertices s sw)"
  define m where "m = length (index_list s sw)"
  define rv where "rv = sum_list (map (\<lambda>sw. length (vertices s sw)) sws)"
  define ri where "ri = sum_list (map (\<lambda>sw. length (index_list s sw)) sws)"
  define q1 where "q1 = (if vert_indices (objs s self) = None then q else q + m)"
  have room: "length (arrays s A) = p + n + rv"
    using Cons.prems(1) by (simp add: A_def n_def rv_def)
  have idx: "vert_indices (objs s sw) \<noteq> None \<and> (\<forall>w\<in>set sws. vert_indices (objs s w) \<noteq> None)
             \<and> length (index_arrays s B) = q + m + ri"
    if "vert_indices (objs s self) = Some B" for B
    using Cons.prems(2) [OF that] by (simp add: m_def ri_def)
  have "\<exists>s'. read_step s self sw p q =
            Inr (s', p + length (vertices s sw),
                 if vert_indices (objs s self) = None then q else q + length (index_list s sw))
          \<and> objs s' = objs s
          \<and> arrays s' = (arrays s)(vert_data (objs s self) :=
                take p (arrays s (vert_data (objs s self))) @ vertices s sw
                @ drop (p + length (vertices s sw)) (arrays s (vert_data (objs s self))))
          \<and> index_arrays s' =
              (case vert_indices (objs s self) of
                 None \<Rightarrow> index_arrays s
               | Some B \<Rightarrow> (index_arrays s)
                   (B := take q (index_arrays s B) @ map (\<lambda>i. i + of_nat p) (index_list s sw)
                         @ drop (q + length (index_list s sw)) (index_arrays s B)))"
  proof (rule read_step_correct)
    show "p + length (vertices s sw) \<le> length (arrays s (vert_data (objs s self)))"
      using room by (simp add: A_def n_def)
  next
    fix B assume "vert_indices (objs s self) = Some B"
    from idx [OF this]
    show "vert_indices (objs s sw) \<noteq> None \<and> q + length (index_list s sw) \<le> length (index_arrays s B)"
      by (simp add: m_def)
  qed
  then obtain s1 where step: "read_step s self sw p q = Inr (s1, p + n, q1)"
    and objs1: "objs s1 = objs s"
    and arr1: "arrays s1 = (arrays s)(A := take p (arrays s A) @ vertices s sw @ drop (p + n) (arrays s A))"
    and ind1: "index_arrays s1 =
              (case vert_indices (objs s self) of
                 None \<Rightarrow> index_arrays s
               | Some B \<Rightarrow> (index_arrays s)
                   (B := take q (index_arrays s B) @ map (\<lambda>i. i + of_nat p) (index_list s sw)
                         @ drop (q + m) (index_arrays s B)))"
    unfolding A_def n_def m_def q1_def by blast
  have ind1_None: "index_arrays s1 = index_arrays s" if "vert_indices (objs s self) = None"
    using that by (simp add: ind1)
  have ind1_Some: "index_arrays s1 = (index_arrays s)
                   (B := take q (index_arrays s B) @ map (\<lambda>i. i + of_nat p) (index_list s sw)
                         @ drop (q + m) (index_arrays s B))"
    if "vert_indices (objs s self) = Some B" for B
    using that by (simp add: ind1)
  have len_arr: "length (arrays s1 a) = length (arrays s a)" for a
    using room by (simp add: arr1 n_def)
  have len_ind: "length (index_arrays s1 b) = length (index_arrays s b)" for b
  proof (cases "vert_indices (objs s self)")
    case None
    then show ?thesis by (simp add: ind1_None)
  next
    case (Some B)
    with idx [OF Some] show ?thesis by (simp add: ind1_Some [OF Some] m_def)
  qed
  have same_v: "vertices s1 w = vertices s w" if w: "w \<in> set sws" for w
  proof (cases "vert_data (objs s w) = A")
    case False
    then show ?thesis by (simp add: vertices_def objs1 arr1)
  next
    case True
    from w have "length (vertices s w) \<in> set (map (\<lambda>sw. length (vertices s sw)) sws)"
      by simp
    then have "length (vertices s w) \<le> rv"
      unfolding rv_def by (rule member_le_sum_list) simp
    moreover from True have "length (vertices s w) = p + n + rv"
      using room by (simp add: vertices_def)
    ultimately have "p = 0" and "n = 0" by simp_all
    then have "vertices s sw = []" by (simp add: n_def)
    with \<open>p = 0\<close> \<open>n = 0\<close> have "arrays s1 = arrays s"
      by (simp add: arr1)
    then show ?thesis by (simp add: vertices_def objs1)
  qed
  have same_i: "index_list s1 w = index_list s w" if w: "w \<in> set sws" for w
  proof (cases "vert_indices (objs s self)")
    case None
    then show ?thesis by (intro index_list_cong objs1 ind1_None)
  next
    case (Some B)
    note i = idx [OF Some]
    show ?thesis
    proof (cases "vert_indices (objs s w) = Some B")
      case False
      then show ?thesis
        by (auto simp: index_list_def objs1 ind1_Some [OF Some] split: option.splits)
    next
      case True
      from w have "length (index_list s w) \<in> set (map (\<lambda>sw. length (index_list s sw)) sws)"
        by simp
      then have "length (index_list s w) \<le> ri"
        unfolding ri_def by (rule member_le_sum_list) simp
      moreover from True i have "length (index_list s w) = q + m + ri"
        by (simp add: index_list_def)
      ultimately have "q = 0" and "m = 0" by simp_all
      then have "index_list s sw = []" by (simp add: m_def)
      with \<open>q = 0\<close> \<open>m = 0\<close> have "index_arrays s1 = index_arrays s"
        by (simp add: ind1_Some [OF Some])
      then show ?thesis by (intro index_list_cong objs1)
    qed
  qed
  have maps_v: "map (\<lambda>sw. length (vertices s1 sw)) sws = map (\<lambda>sw. length (vertices s sw)) sws"
    by (rule map_cong) (simp_all add: same_v)
  have maps_i: "map (\<lambda>sw. length (index_list s1 sw)) sws = map (\<lambda>sw. length (index_list s sw)) sws"
    by (rule map_cong) (simp_all add: same_i)
  have maps_c: "map (vertices s1) sws = map (vertices s) sws"
    by (rule map_cong) (simp_all add: same_v)
  have maps_b: "map (\<lambda>sw. (vertices s1 sw, index_list s1 sw)) sws
                = map (\<lambda>sw. (vertices s sw, index_list s sw)) sws"
    by (rule map_cong) (simp_all add: same_v same_i)
  have "\<exists>s'. read_loop s1 self sws (p + n) q1 = Inr s' \<and> objs s' = objs s1
          \<and> arrays s' (vert_data (objs s1 self)) =
              take (p + n) (arrays s1 (vert_data (objs s1 self))) @ concat (map (vertices s1) sws)
          \<and> (\<forall>B. vert_indices (objs s1 self) = Some B \<longrightarrow>
                index_arrays s' B =
                  take q1 (index_arrays s1 B)
                  @ offset_blocks (p + n) (map (\<lambda>sw. (vertices s1 sw, index_list s1 sw)) sws))"
  proof (rule Cons.IH)
    show "length (arrays s1 (vert_data (objs s1 self))) =
            p + n + sum_list (map (\<lambda>sw. length (vertices s1 sw)) sws)"
      using room by (simp add: len_arr objs1 maps_v A_def rv_def)
  next
    fix B assume "vert_indices (objs s1 self) = Some B"
    then have B: "vert_indices (objs s self) = Some B" by (simp add: objs1)
    from idx [OF B] B
    show "(\<forall>sw\<in>set sws. vert_indices (objs s1 sw) \<noteq> None) \<and>
          length (index_arrays s1 B) = q1 + sum_list (map (\<lambda>sw. length (index_list s1 sw)) sws)"
      by (simp add: objs1 len_ind maps_i q1_def ri_def)
  qed
  then obtain s' where loop: "read_loop s1 self sws (p + n) q1 = Inr s'"
    and objs': "objs s' = objs s1"
    and arr': "arrays s' A = take (p + n) (arrays s1 A) @ concat (map (vertices s) sws)"
    and ind': "\<And>B. vert_indices (objs s self) = Some B \<Longrightarrow>
                index_arrays s' B =
                  take q1 (index_arrays s1 B)
                  @ offset_blocks (p + n) (map (\<lambda>sw. (vertices s sw, index_list s sw)) sws)"
    unfolding objs1 maps_c maps_b A_def by blast
  have 1: "read_loop s self (sw # sws) p q = Inr s'"
    by (simp add: step loop)
  have 2: "objs s' = objs s"
    by (simp add: objs' objs1)
  have 3: "arrays s' A = take p (arrays s A) @ concat (map (vertices s) (sw # sws))"
    using room by (simp add: arr' arr1 n_def)
  have 4: "index_arrays s' B =
             take q (index_arrays s B)
             @ offset_blocks p (map (\<lambda>sw. (vertices s sw, index_list s sw)) (sw # sws))"
    if B: "vert_indices (objs s self) = Some B" for B
    using idx [OF B] B by (simp add: ind' [OF B] ind1_Some [OF B] q1_def m_def n_def)
  from 1 2 3 4 show ?case
    unfolding A_def by blast
qed

lemma read_in_correct:
  fixes s :: "('v::zero, 'n, 'w::len word) store"
  assumes ns: "self \<notin> set sws"
    and alloc: "\<forall>sw\<in>set sws. vert_data (objs s sw) < next_addr s \<and>
                  (\<forall>c. vert_indices (objs s sw) = Some c \<longrightarrow> c < next_addr s)"
    and cons: "vert_indices (objs s self) \<noteq> None \<Longrightarrow> \<forall>sw\<in>set sws. vert_indices (objs s sw) \<noteq> None"
  shows "\<exists>s'. read_in s self sws = Inr s'
          \<and> vertices s' self = concat (map (vertices s) sws)
          \<and> (vert_indices (objs s self) = None \<longrightarrow> indices s' self = None)
          \<and> (vert_indices (objs s self) \<noteq> None \<longrightarrow>
                indices s' self =
                  Some (offset_blocks 0 (map (\<lambda>sw. (vertices s sw, index_list s sw)) sws)))"
proof -
  define r1 where "r1 = resize_array s (vert_data (objs s self)) (sum_vert_len s sws)"
  define A where "A = snd r1"
  define s2 where "s2 = set_obj (fst r1) self ((objs (fst r1) self)\<lparr>vert_data := A\<rparr>)"
  have r1: "resize_array s (vert_data (objs s self)) (sum_vert_len s sws) = (fst r1, A)"
    by (simp add: r1_def A_def)
  note p1 = resize_array_props [OF r1]
  have o2: "objs s2 = (objs s)(self := (objs s self)\<lparr>vert_data := A\<rparr>)"
    by (simp add: s2_def set_obj_def p1(2))
  have a2: "arrays s2 = arrays (fst r1)" and i2: "index_arrays s2 = index_arrays s"
    and n2: "next_addr s \<le> next_addr s2"
    using p1(3,5) by (simp_all add: s2_def set_obj_def)
  have A2: "vert_data (objs s2 self) = A" and vi2: "vert_indices (objs s2 self) = vert_indices (objs s self)"
    by (simp_all add: o2)
  have src2: "objs s2 sw = objs s sw" if "sw \<in> set sws" for sw
    using that ns by (auto simp: o2)
  have v2: "vertices s2 sw = vertices s sw" if "sw \<in> set sws" for sw
    using that alloc p1(4) by (simp add: vertices_def src2 a2)
  have l2: "index_list s2 sw = index_list s sw" if "sw \<in> set sws" for sw
    using that by (simp add: index_list_def src2 i2 cong: option.case_cong)
  have mv2: "map (vertices s2) sws = map (vertices s) sws"
    by (rule map_cong) (simp_all add: v2)
  have ml2: "map (\<lambda>sw. length (vertices s2 sw)) sws = map (\<lambda>sw. length (vertices s sw)) sws"
    by (rule map_cong) (simp_all add: v2)
  have mb2: "map (\<lambda>sw. (vertices s2 sw, index_list s2 sw)) sws
             = map (\<lambda>sw. (vertices s sw, index_list s sw)) sws"
    by (rule map_cong) (simp_all add: v2 l2)
  have room2: "length (arrays s2 A) = 0 + sum_list (map (\<lambda>sw. length (vertices s2 sw)) sws)"
    using p1(1) by (simp add: a2 ml2 sum_vert_len_def)
  show ?thesis
  proof (cases "vert_indices (objs s self)")
    case None
    have run: "read_in s self sws = read_loop s2 self sws 0 0"
      using None by (simp add: read_in_alt Let_def r1_def [symmetric] A_def [symmetric]
          s2_def [symmetric] vi2)
    have "\<exists>s'. read_loop s2 self sws 0 0 = Inr s' \<and> objs s' = objs s2
          \<and> arrays s' (vert_data (objs s2 self)) =
              take 0 (arrays s2 (vert_data (objs s2 self))) @ concat (map (vertices s2) sws)
          \<and> (\<forall>B. vert_indices (objs s2 self) = Some B \<longrightarrow>
                index_arrays s' B =
                  take 0 (index_arrays s2 B)
                  @ offset_blocks 0 (map (\<lambda>sw. (vertices s2 sw, index_list s2 sw)) sws))"
      by (rule read_loop_correct) (simp_all add: A2 room2 vi2 None)
    then obtain s' where "read_loop s2 self sws 0 0 = Inr s'" and "objs s' = objs s2"
      and "arrays s' A = concat (map (vertices s) sws)"
      by (auto simp: A2 mv2)
    with None run show ?thesis
      by (auto simp: vertices_def indices_def A2 vi2)
  next
    case (Some b)
    have all: "\<forall>sw\<in>set sws. vert_indices (objs s2 sw) \<noteq> None"
      using cons Some by (simp add: src2)
    define ti where "ti = sum_list (map (\<lambda>sw. length (index_list s2 sw)) sws)"
    have tv: "sum_index_len s2 sws = Inr ti"
      unfolding ti_def using all by (rule sum_index_len_Some)
    define r3 where "r3 = resize_index_array s2 b ti"
    define B where "B = snd r3"
    define s4 where "s4 = set_obj (fst r3) self ((objs (fst r3) self)\<lparr>vert_indices := Some B\<rparr>)"
    have r3: "resize_index_array s2 b ti = (fst r3, B)"
      by (simp add: r3_def B_def)
    note p3 = resize_index_array_props [OF r3]
    have o4: "objs s4 = (objs s2)(self := (objs s2 self)\<lparr>vert_indices := Some B\<rparr>)"
      by (simp add: s4_def set_obj_def p3(2))
    have a4: "arrays s4 = arrays s2" and i4: "index_arrays s4 = index_arrays (fst r3)"
      using p3(3) by (simp_all add: s4_def set_obj_def)
    have A4: "vert_data (objs s4 self) = A" and vi4: "vert_indices (objs s4 self) = Some B"
      by (simp_all add: o4 A2)
    have src4: "objs s4 sw = objs s sw" if "sw \<in> set sws" for sw
      using that ns by (auto simp: o4 src2)
    have v4: "vertices s4 sw = vertices s sw" if "sw \<in> set sws" for sw
      using that v2 [OF that] by (simp add: vertices_def src4 src2 a4)
    have l4: "index_list s4 sw = index_list s sw" if "sw \<in> set sws" for sw
    proof (cases "vert_indices (objs s sw)")
      case None
      then show ?thesis by (simp add: index_list_def src4 that)
    next
      case (Some c)
      with alloc that have "c < next_addr s2" using n2 by fastforce
      with p3(4) have "index_arrays (fst r3) c = index_arrays s2 c" by simp
      with Some show ?thesis by (simp add: index_list_def src4 that i4 i2)
    qed
    have mv4: "map (vertices s4) sws = map (vertices s) sws"
      by (rule map_cong) (simp_all add: v4)
    have ml4: "map (\<lambda>sw. length (vertices s4 sw)) sws = map (\<lambda>sw. length (vertices s sw)) sws"
      by (rule map_cong) (simp_all add: v4)
    have mi4: "map (\<lambda>sw. length (index_list s4 sw)) sws = map (\<lambda>sw. length (index_list s2 sw)) sws"
      by (rule map_cong) (simp_all add: l4 l2)
    have mb4: "map (\<lambda>sw. (vertices s4 sw, index_list s4 sw)) sws
               = map (\<lambda>sw. (vertices s sw, index_list s sw)) sws"
      by (rule map_cong) (simp_all add: v4 l4)
    have run: "read_in s self sws = read_loop s4 self sws 0 0"
      using Some tv by (simp add: read_in_alt Let_def r1_def [symmetric] A_def [symmetric]
          s2_def [symmetric] vi2 r3_def [symmetric] B_def [symmetric] s4_def [symmetric])
    have "\<exists>s'. read_loop s4 self sws 0 0 = Inr s' \<and> objs s' = objs s4
          \<and> arrays s' (vert_data (objs s4 self)) =
              take 0 (arrays s4 (vert_data (objs s4 self))) @ concat (map (vertices s4) sws)
          \<and> (\<forall>B. vert_indices (objs s4 self) = Some B \<longrightarrow>
                index_arrays s' B =
                  take 0 (index_arrays s4 B)
                  @ offset_blocks 0 (map (\<lambda>sw. (vertices s4 sw, index_list s4 sw)) sws))"
    proof (rule read_loop_correct)
      show "length (arrays s4 (vert_data (objs s4 self))) =
              0 + sum_list (map (\<lambda>sw. length (vertices s4 sw)) sws)"
        using room2 by (simp add: A4 a4 ml4 ml2)
    next
      fix B' assume "vert_indices (objs s4 self) = Some B'"
      then have "B' = B" by (simp add: vi4)
      with p3(1) all
      show "(\<forall>sw\<in>set sws. vert_indices (objs s4 sw) \<noteq> None) \<and>
            length (index_arrays s4 B') = 0 + sum_list (map (\<lambda>sw. length (index_list s4 sw)) sws)"
        by (simp add: src4 src2 i4 mi4 ti_def)
    qed
    then obtain s' where "read_loop s4 self sws 0 0 = Inr s'" and "objs s' = objs s4"
      and "arrays s' A = concat (map (vertices s) sws)"
      and "index_arrays s' B = offset_blocks 0 (map (\<lambda>sw. (vertices s sw, index_list s sw)) sws)"
      by (auto simp: A4 vi4 mv4 mb4)
    with Some run show ?thesis
      by (auto simp: vertices_def indices_def A4 vi4)
  qed
qed

subsection \<open>Blocks of a concatenation\<close>

lemma block_concat:
  "k < length xss \<Longrightarrow>
   block (sum_list (map length (take k xss))) (length (xss ! k)) (concat xss) = xss ! k"
proof (induction xss arbitrary: k)
  case Nil
  then show ?case by simp
next
  case (Cons xs xss)
  show ?case
  proof (cases k)
    case 0
    then show ?thesis by (simp add: block_def)
  next
    case (Suc j)
    with Cons.prems have "j < length xss" by simp
    from Cons.IH [OF this] Suc show ?thesis by (simp add: block_def)
  qed
qed

lemma length_offset_blocks:
  "length (offset_blocks p srcs) = sum_list (map (\<lambda>src. length (snd src)) srcs)"
  by (induction p srcs rule: offset_blocks.induct) simp_all

lemma block_offset_blocks:
  "k < length srcs \<Longrightarrow>
   block (sum_list (map (\<lambda>src. length (snd src)) (take k srcs))) (length (snd (srcs ! k)))
     (offset_blocks p srcs)
   = map (\<lambda>i. i + of_nat (p + sum_list (map (\<lambda>src. length (fst src)) (take k srcs)))) (snd (srcs ! k))"
proof (induction p srcs arbitrary: k rule: offset_blocks.induct)
  case (1 p)
  then show ?case by simp
next
  case (2 p vs ixs rest)
  show ?case
  proof (cases k)
    case 0
    then show ?thesis by (simp add: block_def)
  next
    case (Suc j)
    with "2.prems" have "j < length rest" by simp
    from "2.IH" [OF this] Suc show ?thesis by (simp add: block_def add.assoc)
  qed
qed

subsection \<open>\<^verbatim>\<open>read_in\<close>\<close>

lemma sint_add_of_nat:
  fixes i :: "'w::len word"
  assumes "sint i + int k < 2 ^ (LENGTH('w) - 1)"
  shows "sint (i + of_nat k) = sint i + int k"
proof -
  have "i + of_nat k = word_of_int (sint i + int k)"
    by simp
  then have "sint (i + of_nat k) = signed_take_bit (LENGTH('w) - 1) (sint i + int k)"
    by (simp only: sint_sbintrunc')
  moreover have "- (2 ^ (LENGTH('w) - 1)) \<le> sint i + int k"
    using sint_ge [of i] by simp
  ultimately show ?thesis
    using assms by (simp add: signed_take_bit_int_eq_self)
qed

lemma read_in_blocks:
  fixes s :: "('v::zero, 'n, 'w::len word) store"
  assumes "self \<notin> set sws"
    and "\<forall>sw\<in>set sws. vert_data (objs s sw) < next_addr s \<and>
           (\<forall>c. vert_indices (objs s sw) = Some c \<longrightarrow> c < next_addr s)"
    and "vert_indices (objs s self) \<noteq> None \<longrightarrow> (\<forall>sw\<in>set sws. vert_indices (objs s sw) \<noteq> None)"
  shows "\<exists>s'. read_in s self sws = Inr s'
     \<and> vertices s' self = concat (map (vertices s) sws)
     \<and> length (vertices s' self) = sum_list (map (\<lambda>sw. length (vertices s sw)) sws)
     \<and> (\<forall>k<length sws.
           block (sum_list (map (\<lambda>sw. length (vertices s sw)) (take k sws)))
             (length (vertices s (sws ! k))) (vertices s' self)
           = vertices s (sws ! k))
     \<and> (vert_indices (objs s self) = None \<longrightarrow> indices s' self = None)
     \<and> (vert_indices (objs s self) \<noteq> None \<longrightarrow>
          (\<exists>merged. indices s' self = Some merged
             \<and> length merged = sum_list (map (\<lambda>sw. length (index_list s sw)) sws)
             \<and> (\<forall>k<length sws.
                   block (sum_list (map (\<lambda>sw. length (index_list s sw)) (take k sws)))
                     (length (index_list s (sws ! k))) merged
                   = map (\<lambda>i. i + of_nat (sum_list (map (\<lambda>sw. length (vertices s sw)) (take k sws))))
                       (index_list s (sws ! k)))))"
proof -
  define srcs where "srcs = map (\<lambda>sw. (vertices s sw, index_list s sw)) sws"
  from assms(3) have "vert_indices (objs s self) \<noteq> None \<Longrightarrow>
      \<forall>sw\<in>set sws. vert_indices (objs s sw) \<noteq> None"
    by simp
  then have "\<exists>s'. read_in s self sws = Inr s'
          \<and> vertices s' self = concat (map (vertices s) sws)
          \<and> (vert_indices (objs s self) = None \<longrightarrow> indices s' self = None)
          \<and> (vert_indices (objs s self) \<noteq> None \<longrightarrow> indices s' self = Some (offset_blocks 0 srcs))"
    unfolding srcs_def by (rule read_in_correct [OF assms(1,2)])
  then obtain s' where all: "read_in s self sws = Inr s'
          \<and> vertices s' self = concat (map (vertices s) sws)
          \<and> (vert_indices (objs s self) = None \<longrightarrow> indices s' self = None)
          \<and> (vert_indices (objs s self) \<noteq> None \<longrightarrow> indices s' self = Some (offset_blocks 0 srcs))" ..
  then have run: "read_in s self sws = Inr s'"
    and v: "vertices s' self = concat (map (vertices s) sws)"
    and none: "vert_indices (objs s self) = None \<longrightarrow> indices s' self = None"
    and some: "vert_indices (objs s self) \<noteq> None \<longrightarrow> indices s' self = Some (offset_blocks 0 srcs)"
    by simp_all
  have len_v: "length (vertices s' self) = sum_list (map (\<lambda>sw. length (vertices s sw)) sws)"
    by (simp add: v length_concat comp_def)
  have blk_v: "block (sum_list (map (\<lambda>sw. length (vertices s sw)) (take k sws)))
             (length (vertices s (sws ! k))) (vertices s' self) = vertices s (sws ! k)"
    if "k < length sws" for k
    using that block_concat [of k "map (vertices s) sws"]
    by (simp add: v take_map comp_def)
  have len_i: "length (offset_blocks 0 srcs) = sum_list (map (\<lambda>sw. length (index_list s sw)) sws)"
    by (simp add: length_offset_blocks srcs_def comp_def)
  have blk_i: "block (sum_list (map (\<lambda>sw. length (index_list s sw)) (take k sws)))
                 (length (index_list s (sws ! k))) (offset_blocks 0 srcs)
               = map (\<lambda>i. i + of_nat (sum_list (map (\<lambda>sw. length (vertices s sw)) (take k sws))))
                   (index_list s (sws ! k))"
    if "k < length sws" for k
    using that block_offset_blocks [of k srcs 0]
    by (simp add: srcs_def take_map comp_def)
  have idx: "\<exists>merged. indices s' self = Some merged
             \<and> length merged = sum_list (map (\<lambda>sw. length (index_list s sw)) sws)
             \<and> (\<forall>k<length sws.
                   block (sum_list (map (\<lambda>sw. length (index_list s sw)) (take k sws)))
                     (length (index_list s (sws ! k))) merged
                   = map (\<lambda>i. i + of_nat (sum_list (map (\<lambda>sw. length (vertices s sw)) (take k sws))))
                       (index_list s (sws ! k)))"
    if "vert_indices (objs s self) \<noteq> None"
  proof (intro exI [of _ "offset_blocks 0 srcs"] conjI allI impI)
    from some that show "indices s' self = Some (offset_blocks 0 srcs)" by simp
  next
    show "length (offset_blocks 0 srcs) = sum_list (map (\<lambda>sw. length (index_list s sw)) sws)"
      by (rule len_i)
  next
    fix k assume "k < length sws"
    then show "block (sum_list (map (\<lambda>sw. length (index_list s sw)) (take k sws)))
                 (length (index_list s (sws ! k))) (offset_blocks 0 srcs)
               = map (\<lambda>i. i + of_nat (sum_list (map (\<lambda>sw. length (vertices s sw)) (take k sws))))
                   (index_list s (sws ! k))"
      by (rule blk_i)
  qed
  show ?thesis
  proof (intro exI [of _ s'] conjI allI impI)
    show "read_in s self sws = Inr s'" by (rule run)
  next
    show "vertices s' self = concat (map (vertices s) sws)" by (rule v)
  next
    show "length (vertices s' self) = sum_list (map (\<lambda>sw. length (vertices s sw)) sws)"
      by (rule len_v)
  next
    fix k assume "k < length sws"
    then show "block (sum_list (map (\<lambda>sw. length (vertices s sw)) (take k sws)))
             (length (vertices s (sws ! k))) (vertices s' self) = vertices s (sws ! k)"
      by (rule blk_v)
  next
    assume "vert_indices (objs s self) = None"
    with none show "indices s' self = None" by simp
  next
    assume "vert_indices (objs s self) \<noteq> None"
    then show "\<exists>merged. indices s' self = Some merged
             \<and> length merged = sum_list (map (\<lambda>sw. length (index_list s sw)) sws)
             \<and> (\<forall>k<length sws.
                   block (sum_list (map (\<lambda>sw. length (index_list s sw)) (take k sws)))
                     (length (index_list s (sws ! k))) merged
                   = map (\<lambda>i. i + of_nat (sum_list (map (\<lambda>sw. length (vertices s sw)) (take k sws))))
                       (index_list s (sws ! k)))"
      by (rule idx)
  qed
qed

text \<open>
  Claim C1, as stated, fails, in two ways. A merge whose target is one of its own sources
  does not produce the merged buffers: reading wrappers 0 and 1 into wrapper 0 raises
  \<^verbatim>\<open>ValueError\<close>, because the target has been resized before its length is read again.
  And the offset is added in the index dtype, which wraps around: reading wrappers 1 and 8
  into wrapper 0 puts \<open>-9223372036854775807\<close> where the largest \<^verbatim>\<open>int64\<close> increased
  by the two vertices before it would be \<open>9223372036854775809\<close>.
\<close>

theorem merge_correctness_counterexample:
  "(case read_in demo_store 0 [0, 1] of Inl e \<Rightarrow> Some e | Inr s' \<Rightarrow> None) = Some ValueError
   \<and> index_list demo_store 8 = [9223372036854775807]
   \<and> length (vertices demo_store 1) = 2
   \<and> (case read_in demo_store 0 [1, 8] of
         Inl e \<Rightarrow> None
       | Inr s' \<Rightarrow> map_option (map sint) (indices s' 0)) = Some [0, 1, 1, - 9223372036854775807]"
  by code_simp

text \<open>
  Claim C1, amended. Let a merge read the sources \<open>sws\<close> into the target \<open>self\<close>, where the
  target is not one of the sources, the buffers of the sources are allocated objects of the
  store, and the sources all have an index buffer if the target has one. Then the merge
  returns; the merged vertex buffer is the concatenation of the source vertex buffers in
  input order, so its length is the sum of the vertex counts and its \<open>k\<close>-th block is the
  \<open>k\<close>-th source's vertex buffer; and if the target has an index buffer, the merged index
  buffer has the sum of the index counts as its length, and its \<open>k\<close>-th block is the
  \<open>k\<close>-th source's index buffer with the sum of the vertex counts of the sources before it
  added to every entry in the arithmetic of the index dtype, which wraps around. Where no
  entry of the \<open>k\<close>-th source increased by that sum exceeds the largest value of the
  (signed) dtype, the entries of the block are exactly the original indices increased by
  that sum.
\<close>

theorem merge_correctness:
  fixes s :: "('v::zero, 'n, 'w::len word) store"
  assumes "self \<notin> set sws"
    and "\<forall>sw\<in>set sws. vert_data (objs s sw) < next_addr s \<and>
           (\<forall>c. vert_indices (objs s sw) = Some c \<longrightarrow> c < next_addr s)"
    and "vert_indices (objs s self) \<noteq> None \<longrightarrow> (\<forall>sw\<in>set sws. vert_indices (objs s sw) \<noteq> None)"
  shows "\<exists>s'. read_in s self sws = Inr s'
     \<and> vertices s' self = concat (map (vertices s) sws)
     \<and> length (vertices s' self) = sum_list (map (\<lambda>sw. length (vertices s sw)) sws)
     \<and> (\<forall>k<length sws.
           block (sum_list (map (\<lambda>sw. length (vertices s sw)) (take k sws)))
             (length (vertices s (sws ! k))) (vertices s' self)
           = vertices s (sws ! k))
     \<and> (vert_indices (objs s self) = None \<longrightarrow> indices s' self = None)
     \<and> (vert_indices (objs s self) \<noteq> None \<longrightarrow>
          (\<exists>merged. indices s' self = Some merged
             \<and> length merged = sum_list (map (\<lambda>sw. length (index_list s sw)) sws)
             \<and> (\<forall>k<length sws.
                   block (sum_list (map (\<lambda>sw. length (index_list s sw)) (take k sws)))
                     (length (index_list s (sws ! k))) merged
                   = map (\<lambda>i. i + of_nat (sum_list (map (\<lambda>sw. length (vertices s sw)) (take k sws))))
                       (index_list s (sws ! k))
                   \<and> ((\<forall>i\<in>set (index_list s (sws ! k)).
                          sint i + int (sum_list (map (\<lambda>sw. length (vertices s sw)) (take k sws)))
                            < 2 ^ (LENGTH('w) - 1))
                        \<longrightarrow> map sint
                              (block (sum_list (map (\<lambda>sw. length (index_list s sw)) (take k sws)))
                                 (length (index_list s (sws ! k))) merged)
                            = map (\<lambda>i. sint i
                                         + int (sum_list (map (\<lambda>sw. length (vertices s sw)) (take k sws))))
                                (index_list s (sws ! k))))))"
proof -
  let ?vo = "\<lambda>k. sum_list (map (\<lambda>sw. length (vertices s sw)) (take k sws))"
  let ?io = "\<lambda>k. sum_list (map (\<lambda>sw. length (index_list s sw)) (take k sws))"
  let ?blocks = "\<lambda>s'. \<exists>merged. indices s' self = Some merged
             \<and> length merged = sum_list (map (\<lambda>sw. length (index_list s sw)) sws)
             \<and> (\<forall>k<length sws.
                   block (?io k) (length (index_list s (sws ! k))) merged
                   = map (\<lambda>i. i + of_nat (?vo k)) (index_list s (sws ! k)))"
  from read_in_blocks [OF assms] obtain s' where all: "read_in s self sws = Inr s'
     \<and> vertices s' self = concat (map (vertices s) sws)
     \<and> length (vertices s' self) = sum_list (map (\<lambda>sw. length (vertices s sw)) sws)
     \<and> (\<forall>k<length sws.
           block (?vo k) (length (vertices s (sws ! k))) (vertices s' self) = vertices s (sws ! k))
     \<and> (vert_indices (objs s self) = None \<longrightarrow> indices s' self = None)
     \<and> (vert_indices (objs s self) \<noteq> None \<longrightarrow> ?blocks s')" ..
  have idx: "\<exists>merged. indices s' self = Some merged
             \<and> length merged = sum_list (map (\<lambda>sw. length (index_list s sw)) sws)
             \<and> (\<forall>k<length sws.
                   block (?io k) (length (index_list s (sws ! k))) merged
                   = map (\<lambda>i. i + of_nat (?vo k)) (index_list s (sws ! k))
                   \<and> ((\<forall>i\<in>set (index_list s (sws ! k)). sint i + int (?vo k) < 2 ^ (LENGTH('w) - 1))
                        \<longrightarrow> map sint (block (?io k) (length (index_list s (sws ! k))) merged)
                            = map (\<lambda>i. sint i + int (?vo k)) (index_list s (sws ! k))))"
    if "vert_indices (objs s self) \<noteq> None"
  proof -
    from all that have "?blocks s'" by blast
    then obtain merged where m: "indices s' self = Some merged"
      and len: "length merged = sum_list (map (\<lambda>sw. length (index_list s sw)) sws)"
      and blk: "\<And>k. k < length sws \<Longrightarrow>
                   block (?io k) (length (index_list s (sws ! k))) merged
                   = map (\<lambda>i. i + of_nat (?vo k)) (index_list s (sws ! k))"
      by blast
    have exact: "map sint (block (?io k) (length (index_list s (sws ! k))) merged)
                 = map (\<lambda>i. sint i + int (?vo k)) (index_list s (sws ! k))"
      if k: "k < length sws"
        and fit: "\<forall>i\<in>set (index_list s (sws ! k)). sint i + int (?vo k) < 2 ^ (LENGTH('w) - 1)"
      for k
    proof -
      have "map sint (map (\<lambda>i. i + of_nat (?vo k)) (index_list s (sws ! k)))
            = map (\<lambda>i. sint i + int (?vo k)) (index_list s (sws ! k))"
        unfolding map_map comp_def
        by (rule map_cong [OF refl]) (use fit in \<open>simp add: sint_add_of_nat\<close>)
      then show ?thesis
        by (simp only: blk [OF k])
    qed
    show ?thesis
    proof (intro exI [of _ merged] conjI allI impI)
      show "indices s' self = Some merged" by (rule m)
      show "length merged = sum_list (map (\<lambda>sw. length (index_list s sw)) sws)" by (rule len)
    next
      fix k assume "k < length sws"
      then show "block (?io k) (length (index_list s (sws ! k))) merged
                   = map (\<lambda>i. i + of_nat (?vo k)) (index_list s (sws ! k))"
        by (rule blk)
    next
      fix k
      assume "k < length sws"
        and "\<forall>i\<in>set (index_list s (sws ! k)). sint i + int (?vo k) < 2 ^ (LENGTH('w) - 1)"
      then show "map sint (block (?io k) (length (index_list s (sws ! k))) merged)
                 = map (\<lambda>i. sint i + int (?vo k)) (index_list s (sws ! k))"
        by (rule exact)
    qed
  qed
  from all have run: "read_in s self sws = Inr s'"
    and v: "vertices s' self = concat (map (vertices s) sws)"
    and len_v: "length (vertices s' self) = sum_list (map (\<lambda>sw. length (vertices s sw)) sws)"
    and blk_v: "\<forall>k<length sws.
           block (?vo k) (length (vertices s (sws ! k))) (vertices s' self) = vertices s (sws ! k)"
    and none: "vert_indices (objs s self) = None \<longrightarrow> indices s' self = None"
    by blast+
  show ?thesis
  proof (intro exI [of _ s'] conjI allI impI)
    show "read_in s self sws = Inr s'" by (rule run)
    show "vertices s' self = concat (map (vertices s) sws)" by (rule v)
    show "length (vertices s' self) = sum_list (map (\<lambda>sw. length (vertices s sw)) sws)"
      by (rule len_v)
  next
    fix k assume "k < length sws"
    with blk_v show "block (?vo k) (length (vertices s (sws ! k))) (vertices s' self)
                   = vertices s (sws ! k)"
      by blast
  next
    assume "vert_indices (objs s self) = None"
    with none show "indices s' self = None" by blast
  next
    assume "vert_indices (objs s self) \<noteq> None"
    then show "\<exists>merged. indices s' self = Some merged
             \<and> length merged = sum_list (map (\<lambda>sw. length (index_list s sw)) sws)
             \<and> (\<forall>k<length sws.
                   block (?io k) (length (index_list s (sws ! k))) merged
                   = map (\<lambda>i. i + of_nat (?vo k)) (index_list s (sws ! k))
                   \<and> ((\<forall>i\<in>set (index_list s (sws ! k)). sint i + int (?vo k) < 2 ^ (LENGTH('w) - 1))
                        \<longrightarrow> map sint (block (?io k) (length (index_list s (sws ! k))) merged)
                            = map (\<lambda>i. sint i + int (?vo k)) (index_list s (sws ! k))))"
      by (rule idx)
  qed
qed

theorem merge_correctness_witness:
  "0 \<notin> set [1, 4::addr]
   \<and> (\<exists>s' merged. read_in demo_store 0 [1, 4] = Inr s'
         \<and> vertices s' 0 = [200, 201, 200, 201]
         \<and> indices s' 0 = Some merged
         \<and> length merged = 6
         \<and> block 0 3 merged = [0, 1, 1]
         \<and> block 3 3 merged = [2, 3, 3]
         \<and> map sint (block 3 3 merged) = [2, 3, 3])"
proof -
  have h1: "0 \<notin> set [1, 4::addr]" by simp
  have h2: "\<forall>sw\<in>set [1, 4]. vert_data (objs demo_store sw) < next_addr demo_store \<and>
           (\<forall>c. vert_indices (objs demo_store sw) = Some c \<longrightarrow> c < next_addr demo_store)"
    by (simp add: eval_store_defs)
  have h3: "vert_indices (objs demo_store 0) \<noteq> None \<longrightarrow>
            (\<forall>sw\<in>set [1, 4]. vert_indices (objs demo_store sw) \<noteq> None)"
    by (simp add: eval_store_defs)
  have present: "vert_indices (objs demo_store 0) \<noteq> None"
    by (simp add: eval_store_defs)
  from merge_correctness [OF h1 h2 h3] obtain s' where
    run: "read_in demo_store 0 [1, 4] = Inr s'"
    and v: "vertices s' 0 = concat (map (vertices demo_store) [1, 4])"
    and i: "vert_indices (objs demo_store 0) \<noteq> None \<longrightarrow>
          (\<exists>merged. indices s' 0 = Some merged
             \<and> length merged = sum_list (map (\<lambda>sw. length (index_list demo_store sw)) [1, 4])
             \<and> (\<forall>k<length [1, 4::addr].
                   block (sum_list (map (\<lambda>sw. length (index_list demo_store sw)) (take k [1, 4])))
                     (length (index_list demo_store ([1, 4] ! k))) merged
                   = map (\<lambda>i. i + of_nat (sum_list (map (\<lambda>sw. length (vertices demo_store sw)) (take k [1, 4]))))
                       (index_list demo_store ([1, 4] ! k))
                   \<and> ((\<forall>i\<in>set (index_list demo_store ([1, 4] ! k)).
                          sint i + int (sum_list (map (\<lambda>sw. length (vertices demo_store sw)) (take k [1, 4])))
                            < 2 ^ (LENGTH(64) - 1))
                        \<longrightarrow> map sint
                              (block (sum_list (map (\<lambda>sw. length (index_list demo_store sw)) (take k [1, 4])))
                                 (length (index_list demo_store ([1, 4] ! k))) merged)
                            = map (\<lambda>i. sint i
                                         + int (sum_list (map (\<lambda>sw. length (vertices demo_store sw)) (take k [1, 4]))))
                                (index_list demo_store ([1, 4] ! k)))))"
    by (elim exE conjE) blast
  from i present obtain merged where m: "indices s' 0 = Some merged"
    and len: "length merged = sum_list (map (\<lambda>sw. length (index_list demo_store sw)) [1, 4])"
    and blk: "\<And>k. k < length [1, 4::addr] \<Longrightarrow>
                   block (sum_list (map (\<lambda>sw. length (index_list demo_store sw)) (take k [1, 4])))
                     (length (index_list demo_store ([1, 4] ! k))) merged
                   = map (\<lambda>i. i + of_nat (sum_list (map (\<lambda>sw. length (vertices demo_store sw)) (take k [1, 4]))))
                       (index_list demo_store ([1, 4] ! k))
                   \<and> ((\<forall>i\<in>set (index_list demo_store ([1, 4] ! k)).
                          sint i + int (sum_list (map (\<lambda>sw. length (vertices demo_store sw)) (take k [1, 4])))
                            < 2 ^ (LENGTH(64) - 1))
                        \<longrightarrow> map sint
                              (block (sum_list (map (\<lambda>sw. length (index_list demo_store sw)) (take k [1, 4])))
                                 (length (index_list demo_store ([1, 4] ! k))) merged)
                            = map (\<lambda>i. sint i
                                         + int (sum_list (map (\<lambda>sw. length (vertices demo_store sw)) (take k [1, 4]))))
                                (index_list demo_store ([1, 4] ! k)))"
    by (elim impE exE conjE) blast+
  have il1: "index_list demo_store 1 = [0, 1, 1]" and il4: "index_list demo_store 4 = [0, 1, 1]"
    and v1: "vertices demo_store 1 = [200, 201]" and v4: "vertices demo_store 4 = [200, 201]"
    by (simp_all add: index_list_def eval_store_defs)
  have sel: "[1, 4::addr] ! 0 = 1" "[1, 4::addr] ! 1 = 4" "take 0 [1, 4::addr] = []"
    "take 1 [1, 4::addr] = [1]"
    by simp_all
  have k0: "0 < length [1, 4::addr]" and k1: "1 < length [1, 4::addr]"
    by simp_all
  from blk [OF k0, THEN conjunct1, unfolded sel il1] have b0: "block 0 3 merged = [0, 1, 1]"
    by (simp add: numeral_3_eq_3)
  from blk [OF k1, THEN conjunct1, unfolded sel il1 il4 v1]
  have b1: "block 3 3 merged = [2, 3, 3]"
    by (simp add: numeral_3_eq_3 il1 [unfolded One_nat_def] v1 [unfolded One_nat_def])
  from blk [OF k1, THEN conjunct2, unfolded sel il1 il4 v1]
  have b2: "map sint (block 3 3 merged) = [2, 3, 3]"
    by (simp add: numeral_3_eq_3 il1 [unfolded One_nat_def] v1 [unfolded One_nat_def])
  from len [unfolded il1 il4 list.map] have l: "length merged = 6"
    by simp
  from v [unfolded list.map v1 v4] have v': "vertices s' 0 = [200, 201, 200, 201]"
    by simp
  from run v' m l b0 b1 b2
  have "read_in demo_store 0 [1, 4] = Inr s'
         \<and> vertices s' 0 = [200, 201, 200, 201]
         \<and> indices s' 0 = Some merged
         \<and> length merged = 6
         \<and> block 0 3 merged = [0, 1, 1]
         \<and> block 3 3 merged = [2, 3, 3]
         \<and> map sint (block 3 3 merged) = [2, 3, 3]"
    by (intro conjI)
  then have "\<exists>s' merged. read_in demo_store 0 [1, 4] = Inr s'
         \<and> vertices s' 0 = [200, 201, 200, 201]
         \<and> indices s' 0 = Some merged
         \<and> length merged = 6
         \<and> block 0 3 merged = [0, 1, 1]
         \<and> block 3 3 merged = [2, 3, 3]
         \<and> map sint (block 3 3 merged) = [2, 3, 3]"
    by (intro exI)
  with h1 show ?thesis ..
qed




section \<open>Include resolution\<close>

subsection \<open>Lines, joins and replacement\<close>

lemma split_nl_not_Nil: "split_nl t \<noteq> []"
  by (induction t) (auto split: list.splits)

lemma join_Cons_Cons: "join sep ((c # l) # ls) = c # join sep (l # ls)"
  by (cases ls) simp_all

lemma join_split_nl: "join [newline] (split_nl t) = t"
proof (induction t)
  case Nil
  show ?case by simp
next
  case (Cons c cs)
  obtain l ls where sp: "split_nl cs = l # ls"
    using split_nl_not_Nil [of cs] by (cases "split_nl cs") auto
  with Cons show ?case
    by (simp add: join_Cons_Cons)
qed

lemma newline_not_in_line: "l \<in> set (split_nl t) \<Longrightarrow> newline \<notin> set l"
proof (induction t arbitrary: l)
  case Nil
  then show ?case by simp
next
  case (Cons c cs)
  obtain l' ls where sp: "split_nl cs = l' # ls"
    using split_nl_not_Nil [of cs] by (cases "split_nl cs") auto
  with Cons show ?case
    by (auto split: if_splits)
qed

lemma prefix_before_newline:
  assumes "newline \<notin> set old"
  shows "prefix old (c @ newline # rest) \<longleftrightarrow> prefix old c"
proof
  assume "prefix old (c @ newline # rest)"
  then consider "prefix old c" | us where "old = c @ us" "prefix us (newline # rest)"
    by (auto simp: prefix_append)
  then show "prefix old c"
  proof cases
    case 1
    then show ?thesis .
  next
    case 2
    with assms have "us = []"
      by (cases us) auto
    with 2 show ?thesis by simp
  qed
next
  assume "prefix old c"
  then show "prefix old (c @ newline # rest)"
    by (rule prefix_prefix)
qed

lemma drop_append_le: "n \<le> length xs \<Longrightarrow> drop n (xs @ ys) = drop n xs @ ys"
  by simp

lemma replace_ne_before_newline:
  assumes "old \<noteq> []" and "newline \<notin> set old"
  shows "replace_ne (c @ newline # rest) old new
         = replace_ne c old new @ newline # replace_ne rest old new"
  using assms
proof (induction c old new rule: replace_ne.induct)
  case (1 old new)
  then have "\<not> prefix old (newline # rest)"
    by (cases old) auto
  with 1 show ?case by simp
next
  case (2 c cs old new)
  show ?case
  proof (cases "prefix old (c # cs)")
    case True
    then have "length old \<le> length (c # cs)"
      by (rule prefix_length_le)
    then have dr: "drop (length old) ((c # cs) @ newline # rest)
               = drop (length old) (c # cs) @ newline # rest"
      by (rule drop_append_le)
    have pre: "prefix old (c # (cs @ newline # rest))"
      using prefix_prefix [OF True, of "newline # rest"] by simp
    have "replace_ne ((c # cs) @ newline # rest) old new
          = new @ replace_ne (drop (length old) ((c # cs) @ newline # rest)) old new"
      using "2.prems"(1) pre by (simp del: drop_Suc_Cons)
    also have "\<dots> = new @ replace_ne (drop (length old) (c # cs) @ newline # rest) old new"
      by (simp only: dr)
    also have "\<dots> = new @ replace_ne (drop (length old) (c # cs)) old new
                     @ newline # replace_ne rest old new"
      using "2.IH"(1) [OF "2.prems"(1) True "2.prems"] by simp
    also have "\<dots> = replace_ne (c # cs) old new @ newline # replace_ne rest old new"
      using "2.prems"(1) True by (simp del: drop_Suc_Cons)
    finally show ?thesis .
  next
    case False
    then have "\<not> prefix old ((c # cs) @ newline # rest)"
      using prefix_before_newline [OF "2.prems"(2)] by blast
    then have npre: "\<not> prefix old (c # (cs @ newline # rest))" by simp
    with False "2.prems" "2.IH"(2) [OF "2.prems"(1) False "2.prems"] show ?thesis
      by simp
  qed
qed

lemma replace_ne_join:
  assumes "old \<noteq> []" and "newline \<notin> set old"
  shows "replace_ne (join [newline] chunks) old new
         = join [newline] (map (\<lambda>c. replace_ne c old new) chunks)"
proof (induction chunks)
  case Nil
  show ?case by simp
next
  case (Cons x xs)
  show ?case
  proof (cases xs)
    case Nil
    then show ?thesis by simp
  next
    case (Cons y ys)
    with Cons.IH show ?thesis
      by (simp add: replace_ne_before_newline [OF assms])
  qed
qed

lemma replace_ne_absent: "\<not> sublist old c \<Longrightarrow> replace_ne c old new = c"
proof (induction c)
  case Nil
  show ?case by simp
next
  case (Cons x xs)
  then have "\<not> prefix old (x # xs)" and "\<not> sublist old xs"
    by (simp_all add: sublist_Cons_right)
  with Cons.IH show ?case by simp
qed

lemma replace_ne_whole: "old \<noteq> [] \<Longrightarrow> replace_ne old old new = new"
  by (cases old) simp_all

lemma replace_ne_chunk:
  assumes "old \<noteq> []" and "sublist old c \<longrightarrow> c = old"
  shows "replace_ne c old new = (if c = old then new else c)"
  using assms by (auto simp: replace_ne_whole replace_ne_absent)

subsection \<open>The loop over the directive lines\<close>

lemma insert_loop_chunks:
  assumes "\<forall>d\<in>set ds. get_shader_code_from_file fs depth (insert_target d) = Inr (Some (code d))"
    and "\<forall>d\<in>set ds. d \<noteq> [] \<and> newline \<notin> set d"
    and "\<forall>d\<in>set ds. \<forall>c\<in>set chunks. sublist d c \<longrightarrow> c = d"
    and "\<forall>d\<in>set ds. \<forall>d'\<in>set ds. \<not> sublist d (code d')"
  shows "insert_loop fs depth ds (join [newline] chunks)
         = Inr (Some (join [newline] (map (\<lambda>c. if c \<in> set ds then code c else c) chunks)))"
  using assms
proof (induction ds arbitrary: chunks)
  case Nil
  then show ?case by simp
next
  case (Cons d ds)
  define chunks' where "chunks' = map (\<lambda>c. if c = d then code d else c) chunks"
  have d: "d \<noteq> []" "newline \<notin> set d"
    using Cons.prems(2) by simp_all
  have "replace_ne c d (code d) = (if c = d then code d else c)" if "c \<in> set chunks" for c
    using that Cons.prems(3) d(1) by (intro replace_ne_chunk) simp_all
  then have "map (\<lambda>c. replace_ne c d (code d)) chunks = chunks'"
    unfolding chunks'_def by (intro map_cong) simp_all
  then have rep: "str_replace (join [newline] chunks) d (code d) = join [newline] chunks'"
    using d by (simp add: str_replace_def replace_ne_join)
  have step: "insert_loop fs depth (d # ds) (join [newline] chunks)
              = insert_loop fs depth ds (join [newline] chunks')"
    using Cons.prems(1) by (simp add: rep)
  have code_not_directive: "code d \<notin> set (d # ds)"
  proof
    assume "code d \<in> set (d # ds)"
    moreover have "d \<in> set (d # ds)" by simp
    ultimately have "\<not> sublist (code d) (code d)"
      using Cons.prems(4) by blast
    then show False by simp
  qed
  have "insert_loop fs depth ds (join [newline] chunks')
        = Inr (Some (join [newline] (map (\<lambda>c. if c \<in> set ds then code c else c) chunks')))"
  proof (rule Cons.IH)
    show "\<forall>d\<in>set ds. get_shader_code_from_file fs depth (insert_target d) = Inr (Some (code d))"
      using Cons.prems(1) by simp
    show "\<forall>d\<in>set ds. d \<noteq> [] \<and> newline \<notin> set d"
      using Cons.prems(2) by simp
    show "\<forall>d\<in>set ds. \<forall>d'\<in>set ds. \<not> sublist d (code d')"
      using Cons.prems(4) by simp
    show "\<forall>e\<in>set ds. \<forall>c\<in>set chunks'. sublist e c \<longrightarrow> c = e"
    proof (intro ballI impI)
      fix e c assume e: "e \<in> set ds" and c: "c \<in> set chunks'" and sub: "sublist e c"
      from c obtain c0 where c0: "c0 \<in> set chunks" and cc: "c = (if c0 = d then code d else c0)"
        by (auto simp: chunks'_def)
      show "c = e"
      proof (cases "c0 = d")
        case True
        with cc sub have "sublist e (code d)" by simp
        with Cons.prems(4) e show ?thesis by simp
      next
        case False
        with cc have "c = c0" by simp
        with Cons.prems(3) e c0 sub show ?thesis by simp
      qed
    qed
  qed
  moreover have "map (\<lambda>c. if c \<in> set ds then code c else c) chunks'
                 = map (\<lambda>c. if c \<in> set (d # ds) then code c else c) chunks"
    unfolding chunks'_def using code_not_directive by (auto simp: comp_def)
  ultimately show ?case
    by (simp only: step)
qed

lemma replace_ne_prefix: "old \<noteq> [] \<Longrightarrow> replace_ne (old @ r) old new = new @ replace_ne r old new"
  by (cases old) simp_all

lemma insert_target_relative:
  assumes "\<not> prefix ''/'' p" and "\<not> sublist ''#INSERT '' (p @ ''.glsl'')"
  shows "insert_target (''#INSERT '' @ p @ ''.glsl'') = ''inserts/'' @ p @ ''.glsl''"
proof -
  have "str_replace (''#INSERT '' @ p @ ''.glsl'') ''#INSERT '' [] = replace_ne (p @ ''.glsl'') ''#INSERT '' []"
    using replace_ne_prefix [of "''#INSERT ''" "p @ ''.glsl''" "[]"] by (simp add: str_replace_def)
  also have "\<dots> = p @ ''.glsl''"
    using assms(2) by (rule replace_ne_absent)
  finally have "insert_target (''#INSERT '' @ p @ ''.glsl'') = path_join ''inserts'' (p @ ''.glsl'')"
    by (simp add: insert_target_def)
  moreover from assms(1) have "\<not> prefix ''/'' (p @ ''.glsl'')"
    by (cases p) simp_all
  ultimately show ?thesis
    by (simp add: path_join_def suffix_to_prefix)
qed

text \<open>
  The file of the counterexample below: its second directive line begins with the text of
  its first one.
\<close>

lemma overlap_fs_result:
  "get_shader_code_from_file overlap_fs (Suc depth) ''inserts/a.glsl'' = Inr (Some ''A'')
   \<and> get_shader_code_from_file overlap_fs (Suc depth) ''inserts/a.glsl.glsl'' = Inr (Some ''B'')
   \<and> get_shader_code_from_file overlap_fs (Suc (Suc depth)) ''quad/frag.glsl''
       = Inr (Some (''A'' @ [newline] @ ''A.glsl''))"
  by (simp add: overlap_fs_def eval_file_defs)

text \<open>
  Claim C4. Resolution replaces every directive line by the fully resolved text of the
  file it names. The code does not: the directive lines are found line by line (the
  pattern is anchored at the beginning and the end of a line, and the comment in the code
  announces that the \<^verbatim>\<open>#INSERT\<close> lines are replaced), but the replacement is
  \<^verbatim>\<open>str.replace\<close> on the whole text. The file \<^verbatim>\<open>quad/frag.glsl\<close> has the two directive
  lines \<^verbatim>\<open>#INSERT a.glsl\<close> and \<^verbatim>\<open>#INSERT a.glsl.glsl\<close>, and both referenced files exist,
  with the texts \<^verbatim>\<open>A\<close> and \<^verbatim>\<open>B\<close>. Replacing the first directive also rewrites the
  beginning of the second directive line, so the result is \<^verbatim>\<open>A\<close> and \<^verbatim>\<open>A.glsl\<close>, not
  \<^verbatim>\<open>A\<close> and \<^verbatim>\<open>B\<close>: the second directive line is never replaced by the text of the
  file it names.
\<close>

theorem include_overlap_not_replaced:
  "insertions (''#INSERT a.glsl'' @ [newline] @ ''#INSERT a.glsl.glsl'')
     = [''#INSERT a.glsl'', ''#INSERT a.glsl.glsl'']
   \<and> overlap_fs ''quad/frag.glsl''
       = Readable (''#INSERT a.glsl'' @ [newline] @ ''#INSERT a.glsl.glsl'')
   \<and> insert_target ''#INSERT a.glsl'' = ''inserts/a.glsl''
   \<and> insert_target ''#INSERT a.glsl.glsl'' = ''inserts/a.glsl.glsl''
   \<and> get_shader_code_from_file overlap_fs 1000 ''inserts/a.glsl'' = Inr (Some ''A'')
   \<and> get_shader_code_from_file overlap_fs 1000 ''inserts/a.glsl.glsl'' = Inr (Some ''B'')
   \<and> get_shader_code_from_file overlap_fs 1000 ''quad/frag.glsl''
       = Inr (Some (''A'' @ [newline] @ ''A.glsl''))"
proof -
  have "insertions (''#INSERT a.glsl'' @ [newline] @ ''#INSERT a.glsl.glsl'')
     = [''#INSERT a.glsl'', ''#INSERT a.glsl.glsl'']"
    by (simp add: eval_file_defs)
  moreover have "overlap_fs ''quad/frag.glsl''
       = Readable (''#INSERT a.glsl'' @ [newline] @ ''#INSERT a.glsl.glsl'')"
    by (simp add: overlap_fs_def)
  moreover have "insert_target ''#INSERT a.glsl'' = ''inserts/a.glsl''"
    and "insert_target ''#INSERT a.glsl.glsl'' = ''inserts/a.glsl.glsl''"
    by (simp_all add: eval_file_defs)
  moreover have "Suc 999 = 1000" and "Suc (Suc 998) = 1000" by simp_all
  ultimately show ?thesis
    using overlap_fs_result [of 999] overlap_fs_result [of 998] by simp
qed

text \<open>
  The textual replacement goes wrong only where the text of a directive line occurs a
  second time. Let a source file be found and readable, let the file named by each of its
  directive lines (a line that starts with \<^verbatim>\<open>#INSERT \<close> and ends with \<^verbatim>\<open>.glsl\<close>) resolve
  to a text, and let the text of a directive line occur neither inside another line of the
  file nor inside one of the inserted texts. Then resolution returns the text of the file
  with every directive line replaced by the fully resolved text of the file it names
  (resolved by the same function, so directives nested in it are resolved as well), and
  all other lines unchanged. The file named by \<^verbatim>\<open>#INSERT <path>.glsl\<close> with a relative
  path is \<^verbatim>\<open>inserts/<path>.glsl\<close>.
\<close>

lemma include_resolution_disjoint:
  assumes "filename \<noteq> []" and "fs filename = Readable contents"
    and "\<forall>d\<in>set (insertions contents).
           get_shader_code_from_file fs depth (insert_target d) = Inr (Some (code d))"
    and "\<forall>d\<in>set (insertions contents). \<forall>l\<in>set (split_nl contents). sublist d l \<longrightarrow> l = d"
    and "\<forall>d\<in>set (insertions contents). \<forall>d'\<in>set (insertions contents). \<not> sublist d (code d')"
  shows "get_shader_code_from_file fs (Suc depth) filename
           = Inr (Some (join [newline]
                   (map (\<lambda>l. if is_insert_line l then code l else l) (split_nl contents))))
         \<and> (\<forall>p. \<not> prefix ''/'' p \<and> \<not> sublist ''#INSERT '' (p @ ''.glsl'') \<longrightarrow>
                insert_target (''#INSERT '' @ p @ ''.glsl'') = ''inserts/'' @ p @ ''.glsl'')"
proof
  have lines: "\<forall>d\<in>set (insertions contents). d \<noteq> [] \<and> newline \<notin> set d"
    by (auto simp: insertions_def is_insert_line_def dest: newline_not_in_line)
  have "insert_loop fs depth (insertions contents) (join [newline] (split_nl contents))
        = Inr (Some (join [newline]
            (map (\<lambda>c. if c \<in> set (insertions contents) then code c else c) (split_nl contents))))"
    using assms(3) lines assms(4,5) by (rule insert_loop_chunks)
  moreover have "map (\<lambda>c. if c \<in> set (insertions contents) then code c else c) (split_nl contents)
                 = map (\<lambda>l. if is_insert_line l then code l else l) (split_nl contents)"
    by (rule map_cong) (simp_all add: insertions_def)
  ultimately have "insert_loop fs depth (insertions contents) contents
        = Inr (Some (join [newline]
            (map (\<lambda>l. if is_insert_line l then code l else l) (split_nl contents))))"
    by (simp add: join_split_nl)
  with assms(1,2) show "get_shader_code_from_file fs (Suc depth) filename
           = Inr (Some (join [newline]
                   (map (\<lambda>l. if is_insert_line l then code l else l) (split_nl contents))))"
    by (simp add: find_file_def open_read_def)
next
  show "\<forall>p. \<not> prefix ''/'' p \<and> \<not> sublist ''#INSERT '' (p @ ''.glsl'') \<longrightarrow>
                insert_target (''#INSERT '' @ p @ ''.glsl'') = ''inserts/'' @ p @ ''.glsl''"
    using insert_target_relative by blast
qed

text \<open>
  The file \<^verbatim>\<open>quad/frag.glsl\<close> of the nested example is such a file: its one directive is
  replaced by the text of \<^verbatim>\<open>inserts/finalize_color.glsl\<close>, in which the directive for
  \<^verbatim>\<open>inserts/get_unit_normal.glsl\<close> has been resolved before.
\<close>

lemma include_resolution_nested_example:
  "get_shader_code_from_file nested_fs 2 (insert_target ''#INSERT finalize_color.glsl'')
     = Inr (Some (''vec3 get_unit_normal() {}'' @ [newline] @ ''vec4 finalize_color() {}''))
   \<and> get_shader_code_from_file nested_fs (Suc 2) ''quad/frag.glsl''
     = Inr (Some (''#version 330'' @ [newline] @ ''vec3 get_unit_normal() {}'' @ [newline]
                  @ ''vec4 finalize_color() {}'' @ [newline] @ ''void main() {}''))
   \<and> insert_target (''#INSERT '' @ ''finalize_color'' @ ''.glsl'') = ''inserts/'' @ ''finalize_color'' @ ''.glsl''"
proof -
  define contents where "contents = ''#version 330'' @ [newline] @ ''#INSERT finalize_color.glsl''
      @ [newline] @ ''void main() {}''"
  define code where "code = (\<lambda>d. if d = ''#INSERT finalize_color.glsl''
      then ''vec3 get_unit_normal() {}'' @ [newline] @ ''vec4 finalize_color() {}'' else [])"
  have ins: "insertions contents = [''#INSERT finalize_color.glsl'']"
    by (simp add: contents_def eval_file_defs)
  have sp: "split_nl contents = [''#version 330'', ''#INSERT finalize_color.glsl'', ''void main() {}'']"
    by (simp add: contents_def newline_def)
  have h1: "''quad/frag.glsl'' \<noteq> []" by simp
  have h2: "nested_fs ''quad/frag.glsl'' = Readable contents"
    by (simp add: nested_fs_def contents_def)
  have res: "get_shader_code_from_file nested_fs 2 (insert_target ''#INSERT finalize_color.glsl'')
     = Inr (Some (''vec3 get_unit_normal() {}'' @ [newline] @ ''vec4 finalize_color() {}''))"
    by (simp add: nested_fs_def eval_file_defs numeral_2_eq_2)
  then have h3: "\<forall>d\<in>set (insertions contents).
           get_shader_code_from_file nested_fs 2 (insert_target d) = Inr (Some (code d))"
    by (simp add: ins code_def)
  have h4: "\<forall>d\<in>set (insertions contents). \<forall>l\<in>set (split_nl contents). sublist d l \<longrightarrow> l = d"
    by (simp add: ins sp sublist_code)
  have h5: "\<forall>d\<in>set (insertions contents). \<forall>d'\<in>set (insertions contents). \<not> sublist d (code d')"
    by (simp add: ins code_def newline_def sublist_code)
  have p1: "\<not> prefix ''/'' ''finalize_color''" by simp
  have p2: "\<not> sublist ''#INSERT '' (''finalize_color'' @ ''.glsl'')"
    by (simp add: sublist_code)
  have lines: "join [newline] (map (\<lambda>l. if is_insert_line l then code l else l) (split_nl contents))
     = ''#version 330'' @ [newline] @ ''vec3 get_unit_normal() {}'' @ [newline]
                  @ ''vec4 finalize_color() {}'' @ [newline] @ ''void main() {}''"
    by (simp add: sp code_def is_insert_line_def suffix_to_prefix)
  note resolved = include_resolution_disjoint [OF h1 h2 h3 h4 h5]
  from resolved have a: "get_shader_code_from_file nested_fs (Suc 2) ''quad/frag.glsl''
     = Inr (Some (''#version 330'' @ [newline] @ ''vec3 get_unit_normal() {}'' @ [newline]
                  @ ''vec4 finalize_color() {}'' @ [newline] @ ''void main() {}''))"
    unfolding lines by (rule conjunct1)
  from resolved have "\<forall>p. \<not> prefix ''/'' p \<and> \<not> sublist ''#INSERT '' (p @ ''.glsl'') \<longrightarrow>
                insert_target (''#INSERT '' @ p @ ''.glsl'') = ''inserts/'' @ p @ ''.glsl''"
    by (rule conjunct2)
  with p1 p2 have b: "insert_target (''#INSERT '' @ ''finalize_color'' @ ''.glsl'')
      = ''inserts/'' @ ''finalize_color'' @ ''.glsl''"
    by blast
  from res a b show ?thesis
    by blast
qed

section \<open>\<^verbatim>\<open>combine_with\<close>\<close>

lemma copy_vert_data_props:
  fixes s :: "('v, 'n, 'w::len word) store" and self c :: addr
  defines "t \<equiv> copy_vert_data s self c"
  shows "next_addr t = Suc (next_addr s)"
    and "index_arrays t = index_arrays s"
    and "\<forall>x. x \<noteq> next_addr s \<longrightarrow> arrays t x = arrays s x"
    and "\<forall>x. x \<noteq> c \<longrightarrow> objs t x = objs s x"
    and "objs t c = (objs s c)\<lparr>vert_data := next_addr s\<rparr>"
    and "arrays t (next_addr s) = arrays s (vert_data (objs s self))"
  by (simp_all add: t_def copy_vert_data_def alloc_array_def set_obj_def)

lemma copy_vert_indices_props:
  fixes s :: "('v, 'n, 'w::len word) store" and self c :: addr
  defines "t \<equiv> copy_vert_indices s self c"
  assumes "vert_indices (objs s c) = vert_indices (objs s self)"
  shows "next_addr s \<le> next_addr t"
    and "arrays t = arrays s"
    and "\<forall>x<next_addr s. index_arrays t x = index_arrays s x"
    and "\<forall>x. x \<noteq> c \<longrightarrow> objs t x = objs s x"
    and "vert_data (objs t c) = vert_data (objs s c)"
    and "vert_indices (objs s self) = None \<longrightarrow> vert_indices (objs t c) = None"
    and "\<forall>b. vert_indices (objs s self) = Some b \<longrightarrow>
           (\<exists>b'. vert_indices (objs t c) = Some b' \<and> b' < next_addr t
                 \<and> index_arrays t b' = index_arrays s b)"
  using assms(2)
  by (auto simp: t_def copy_vert_indices_def alloc_index_array_def set_obj_def split: option.splits)

lemma copy_uniforms_props:
  fixes s :: "('v, 'n, 'w::len word) store" and self c :: addr
  defines "t \<equiv> copy_uniforms s self c"
  shows "next_addr s \<le> next_addr t"
    and "arrays t = arrays s"
    and "index_arrays t = index_arrays s"
    and "\<forall>x. x \<noteq> c \<longrightarrow> objs t x = objs s x"
    and "vert_data (objs t c) = vert_data (objs s c)"
    and "vert_indices (objs t c) = vert_indices (objs s c)"
  by (simp_all add: t_def copy_uniforms_def alloc_uniform_dict_def set_obj_def)

lemma copy_texture_paths_props:
  fixes s :: "('v, 'n, 'w::len word) store" and self c :: addr
  defines "t \<equiv> copy_texture_paths s self c"
  shows "next_addr s \<le> next_addr t"
    and "arrays t = arrays s"
    and "index_arrays t = index_arrays s"
    and "\<forall>x. x \<noteq> c \<longrightarrow> objs t x = objs s x"
    and "vert_data (objs t c) = vert_data (objs s c)"
    and "vert_indices (objs t c) = vert_indices (objs s c)"
  by (simp_all add: t_def copy_texture_paths_def alloc_texture_dict_def set_obj_def)

lemma copy_props:
  fixes s :: "('v, 'n, 'w::len word) store" and self :: addr
  assumes self: "self < next_addr s"
  defines "t \<equiv> fst (copy s self)" and "c \<equiv> snd (copy s self)"
  shows "c = next_addr s"
    and "next_addr s \<le> next_addr t"
    and "\<forall>x. x \<noteq> c \<longrightarrow> objs t x = objs s x"
    and "\<forall>x<next_addr s. arrays t x = arrays s x \<and> index_arrays t x = index_arrays s x"
    and "vertices t c = vertices s self"
    and "index_list t c = index_list s self"
    and "vert_indices (objs t c) = None \<longleftrightarrow> vert_indices (objs s self) = None"
    and "vert_data (objs t c) < next_addr t"
    and "\<forall>b. vert_indices (objs t c) = Some b \<longrightarrow> b < next_addr t"
proof -
  define N where "N = next_addr s"
  define s1 where "s1 = s\<lparr>objs := (objs s)(N := objs s self), next_addr := Suc N\<rparr>"
  define s2 where "s2 = copy_vert_data s1 self N"
  define s3 where "s3 = copy_vert_indices s2 self N"
  define s4 where "s4 = copy_uniforms s3 self N"
  define s5 where "s5 = copy_texture_paths s4 self N"
  have cp: "copy s self = (s5, N)"
    by (simp add: copy_def Let_def alloc_obj_def s5_def s4_def s3_def s2_def s1_def N_def)
  then have t: "t = s5" and c: "c = N"
    by (simp_all add: t_def c_def)
  from self have ne: "self \<noteq> N" by (simp add: N_def)
  have n1: "next_addr s1 = Suc N" and a1: "arrays s1 = arrays s" and i1: "index_arrays s1 = index_arrays s"
    and o1: "\<forall>x. x \<noteq> N \<longrightarrow> objs s1 x = objs s x" and c1: "objs s1 N = objs s self"
    by (simp_all add: s1_def)
  note p2 = copy_vert_data_props [where s = s1 and self = self and c = N, folded s2_def]
  have n2: "next_addr s2 = Suc (Suc N)" using p2(1) n1 by simp
  have i2: "index_arrays s2 = index_arrays s" using p2(2) i1 by simp
  have a2: "\<forall>x<N. arrays s2 x = arrays s x" using p2(3) n1 a1 by simp
  have o2: "\<forall>x. x \<noteq> N \<longrightarrow> objs s2 x = objs s x" using p2(4) o1 by simp
  have c2: "objs s2 N = (objs s self)\<lparr>vert_data := Suc N\<rparr>" using p2(5) c1 n1 by simp
  have v2: "arrays s2 (Suc N) = arrays s (vert_data (objs s self))"
    using p2(6) n1 a1 o1 ne by simp
  have pre3: "vert_indices (objs s2 N) = vert_indices (objs s2 self)"
    using c2 o2 ne by simp
  note p3 = copy_vert_indices_props [where s = s2 and self = self and c = N, OF pre3, folded s3_def]
  have n3: "Suc (Suc N) \<le> next_addr s3" using p3(1) n2 by simp
  have a3: "arrays s3 = arrays s2" using p3(2) .
  have i3: "\<forall>x<N. index_arrays s3 x = index_arrays s x" using p3(3) n2 i2 by simp
  have o3: "\<forall>x. x \<noteq> N \<longrightarrow> objs s3 x = objs s x" using p3(4) o2 by simp
  have d3: "vert_data (objs s3 N) = Suc N" using p3(5) c2 by simp
  have vn3: "vert_indices (objs s self) = None \<longrightarrow> vert_indices (objs s3 N) = None"
    using p3(6) o2 ne by simp
  have vs3: "\<forall>b. vert_indices (objs s self) = Some b \<longrightarrow>
           (\<exists>b'. vert_indices (objs s3 N) = Some b' \<and> b' < next_addr s3
                 \<and> index_arrays s3 b' = index_arrays s b)"
    using p3(7) o2 ne i2 by simp
  note p4 = copy_uniforms_props [where s = s3 and self = self and c = N, folded s4_def]
  note p5 = copy_texture_paths_props [where s = s4 and self = self and c = N, folded s5_def]
  have n5: "next_addr s3 \<le> next_addr s5" using p4(1) p5(1) by simp
  have a5: "arrays s5 = arrays s2" using p4(2) p5(2) a3 by simp
  have i5: "index_arrays s5 = index_arrays s3" using p4(3) p5(3) by simp
  have o5: "\<forall>x. x \<noteq> N \<longrightarrow> objs s5 x = objs s x" using p4(4) p5(4) o3 by simp
  have d5: "vert_data (objs s5 N) = Suc N" using p4(5) p5(5) d3 by simp
  have vi5: "vert_indices (objs s5 N) = vert_indices (objs s3 N)" using p4(6) p5(6) by simp
  show "c = next_addr s" by (simp add: c N_def)
  show "next_addr s \<le> next_addr t" using n3 n5 by (simp add: t N_def)
  show "\<forall>x. x \<noteq> c \<longrightarrow> objs t x = objs s x" using o5 by (simp add: t c)
  show "\<forall>x<next_addr s. arrays t x = arrays s x \<and> index_arrays t x = index_arrays s x"
    using a2 i3 by (simp add: t a5 i5 N_def)
  show "vertices t c = vertices s self"
    by (simp add: vertices_def t c d5 a5 v2)
  show "index_list t c = index_list s self"
  proof (cases "vert_indices (objs s self)")
    case None
    with vn3 show ?thesis by (simp add: index_list_def t c vi5)
  next
    case (Some b)
    with vs3 obtain b' where "vert_indices (objs s3 N) = Some b'"
      and "index_arrays s3 b' = index_arrays s b" by blast
    with Some show ?thesis by (simp add: index_list_def t c vi5 i5)
  qed
  show "vert_indices (objs t c) = None \<longleftrightarrow> vert_indices (objs s self) = None"
  proof (cases "vert_indices (objs s self)")
    case None
    with vn3 show ?thesis by (simp add: t c vi5)
  next
    case (Some b)
    with vs3 obtain b' where "vert_indices (objs s3 N) = Some b'" by blast
    with Some show ?thesis by (simp add: t c vi5)
  qed
  show "vert_data (objs t c) < next_addr t"
    using n3 n5 by (simp add: t c d5)
  show "\<forall>b. vert_indices (objs t c) = Some b \<longrightarrow> b < next_addr t"
  proof (intro allI impI)
    fix b assume b: "vert_indices (objs t c) = Some b"
    then have b3: "vert_indices (objs s3 N) = Some b" by (simp add: t c vi5)
    show "b < next_addr t"
    proof (cases "vert_indices (objs s self)")
      case None
      with vn3 b3 show ?thesis by simp
    next
      case (Some b0)
      with vs3 b3 have "b < next_addr s3" by auto
      with n5 show ?thesis by (simp add: t)
    qed
  qed
qed

text \<open>
  \<^verbatim>\<open>combine_with\<close> merges the wrapper with the others, in this order: it reads a copy of
  the wrapper and then the others into the wrapper.
\<close>

lemma combine_with_correct:
  fixes s :: "('v::zero, 'n, 'w::len word) store"
  assumes ne: "others \<noteq> []"
    and self: "self < next_addr s" "self \<notin> set others"
    and alloc: "\<forall>w\<in>set others. w < next_addr s \<and> vert_data (objs s w) < next_addr s \<and>
                  (\<forall>b. vert_indices (objs s w) = Some b \<longrightarrow> b < next_addr s)"
    and cons: "vert_indices (objs s self) \<noteq> None \<Longrightarrow> \<forall>w\<in>set others. vert_indices (objs s w) \<noteq> None"
  shows "\<exists>s'. combine_with s self others = Inr s'
     \<and> vertices s' self = vertices s self @ concat (map (vertices s) others)
     \<and> (vert_indices (objs s self) = None \<longrightarrow> indices s' self = None)
     \<and> (vert_indices (objs s self) \<noteq> None \<longrightarrow>
          indices s' self =
            Some (offset_blocks 0 ((vertices s self, index_list s self)
                                    # map (\<lambda>w. (vertices s w, index_list s w)) others)))"
proof -
  define t where "t = fst (copy s self)"
  define c where "c = snd (copy s self)"
  note p = copy_props [OF self(1), folded t_def c_def]
  have run: "combine_with s self others = read_in t self (c # others)"
    using ne by (simp add: combine_with_def case_prod_beta t_def c_def)
  have sc: "self \<noteq> c" using p(1) self(1) by simp
  have oc: "w \<noteq> c" if "w \<in> set others" for w
    using that alloc p(1) by auto
  have ot: "objs t w = objs s w" if "w \<in> set others" for w
    using p(3) oc [OF that] by simp
  have st: "objs t self = objs s self"
    using p(3) sc by simp
  have vt: "vertices t w = vertices s w" if "w \<in> set others" for w
    using that alloc p(4) by (simp add: vertices_def ot)
  have it: "index_list t w = index_list s w" if "w \<in> set others" for w
  proof (cases "vert_indices (objs s w)")
    case None
    then show ?thesis by (simp add: index_list_def ot that)
  next
    case (Some b)
    with alloc that have "b < next_addr s" by auto
    with p(4) Some show ?thesis by (simp add: index_list_def ot that)
  qed
  have mv: "map (vertices t) others = map (vertices s) others"
    by (rule map_cong) (simp_all add: vt)
  have mb: "map (\<lambda>w. (vertices t w, index_list t w)) others
            = map (\<lambda>w. (vertices s w, index_list s w)) others"
    by (rule map_cong) (simp_all add: vt it)
  have h1: "self \<notin> set (c # others)"
    using sc self(2) by simp
  have h2: "\<forall>sw\<in>set (c # others). vert_data (objs t sw) < next_addr t \<and>
               (\<forall>b. vert_indices (objs t sw) = Some b \<longrightarrow> b < next_addr t)"
  proof
    fix sw assume "sw \<in> set (c # others)"
    then consider "sw = c" | "sw \<in> set others" by auto
    then show "vert_data (objs t sw) < next_addr t \<and>
               (\<forall>b. vert_indices (objs t sw) = Some b \<longrightarrow> b < next_addr t)"
    proof cases
      case 1
      with p(8,9) show ?thesis by simp
    next
      case 2
      with alloc p(2) show ?thesis by (fastforce simp: ot)
    qed
  qed
  have h3: "\<forall>sw\<in>set (c # others). vert_indices (objs t sw) \<noteq> None"
    if "vert_indices (objs t self) \<noteq> None"
  proof -
    from that have some: "vert_indices (objs s self) \<noteq> None" by (simp add: st)
    with p(7) have "vert_indices (objs t c) \<noteq> None" by simp
    moreover from cons [OF some] have "\<forall>w\<in>set others. vert_indices (objs t w) \<noteq> None"
      by (simp add: ot)
    ultimately show ?thesis by simp
  qed
  have "\<exists>s'. read_in t self (c # others) = Inr s'
          \<and> vertices s' self = concat (map (vertices t) (c # others))
          \<and> (vert_indices (objs t self) = None \<longrightarrow> indices s' self = None)
          \<and> (vert_indices (objs t self) \<noteq> None \<longrightarrow>
                indices s' self =
                  Some (offset_blocks 0 (map (\<lambda>sw. (vertices t sw, index_list t sw)) (c # others))))"
    using h1 h2 h3 by (rule read_in_correct)
  then obtain s' where r: "read_in t self (c # others) = Inr s'
          \<and> vertices s' self = concat (map (vertices t) (c # others))
          \<and> (vert_indices (objs t self) = None \<longrightarrow> indices s' self = None)
          \<and> (vert_indices (objs t self) \<noteq> None \<longrightarrow>
                indices s' self =
                  Some (offset_blocks 0 (map (\<lambda>sw. (vertices t sw, index_list t sw)) (c # others))))" ..
  have "map (\<lambda>sw. (vertices t sw, index_list t sw)) (c # others)
        = (vertices s self, index_list s self) # map (\<lambda>w. (vertices s w, index_list s w)) others"
    by (simp add: p(5,6) mb)
  moreover have "concat (map (vertices t) (c # others))
        = vertices s self @ concat (map (vertices s) others)"
    by (simp add: p(5) mv)
  ultimately have "combine_with s self others = Inr s'
     \<and> vertices s' self = vertices s self @ concat (map (vertices s) others)
     \<and> (vert_indices (objs s self) = None \<longrightarrow> indices s' self = None)
     \<and> (vert_indices (objs s self) \<noteq> None \<longrightarrow>
          indices s' self =
            Some (offset_blocks 0 ((vertices s self, index_list s self)
                                    # map (\<lambda>w. (vertices s w, index_list s w)) others)))"
    using r by (simp only: run st) simp
  then show ?thesis ..
qed

end
